theory Spec2Isabelle
  imports Complex_Main "HOL-Library.Word"
begin

section \<open>The data of \<open>Stimulator.cpp\<close>\<close>

text \<open>
  The orchestration layer of the stimulator driver (\<open>src/Mahi/Fes/Core/Stimulator.cpp\<close>) is
  embedded as state-passing functions over a record of the object's fields. Everything
  the class calls but does not define (the Win32 serial API, \<open>Channel::setup_channel\<close>,
  the methods of \<open>Scheduler\<close>, \<open>read_message\<close>, \<open>get_all_messages\<close>, the logger) is an
  external call: it is appended, with its outcome, to a history carried in the state, and
  its outcome is whatever the environment answers for that call after that history.
\<close>

type_synonym handle = int
type_synonym byte = "8 word"

text \<open>\<open>std::wstring\<close>: the driver is written against the Win32 API, where \<open>wchar_t\<close> has 16 bits.\<close>

type_synonym wchar_t = "16 word"
type_synonym wstring = "wchar_t list"

definition INVALID_HANDLE_VALUE :: handle where
  "INVALID_HANDLE_VALUE = - 1"

text \<open>\<open>Channel\<close> is used through its getters only; each getter is a field.\<close>

record channel =
  channel_name :: string
  channel_num :: nat
  board_num :: nat
  max_amplitude :: nat
  max_pulse_width :: nat

text \<open>\<open>ReadMessage\<close>: \<open>is_valid()\<close>, \<open>get_data()\<close> and \<open>get_message()\<close>.\<close>

record read_message =
  is_valid :: bool
  get_data :: "byte list"
  get_message :: "byte list"

datatype severity = Info | Error

datatype purge_flag = PURGE_TXABORT | PURGE_RXABORT | PURGE_RXCLEAR | PURGE_TXCLEAR

text \<open>The external calls, with their arguments.\<close>

datatype io_op =
    LOG severity string
  | CreateFileW wstring
  | GetCommState handle
  | SetCommState handle
  | SetCommTimeouts handle
  | PurgeComm handle purge_flag
  | CloseHandle handle
  | Channel_setup_channel channel handle nat
  | Scheduler_disable nat
  | Scheduler_halt_scheduler nat
  | Scheduler_send_sync_msg nat
  | Scheduler_set_amp nat channel nat
  | Scheduler_write_pw nat channel nat
  | Scheduler_update nat
  | Scheduler_create_scheduler nat handle byte "32 word" nat
  | Scheduler_set_id nat byte
  | Scheduler_add_event nat channel nat byte
  | Read_message handle bool
  | Get_all_messages "handle list" nat
  | Print_message "byte list"

datatype reply =
    Done
  | Flag bool
  | Opened handle
  | Frame read_message
  | Frames "read_message list"

type_synonym history = "(io_op \<times> reply) list"

text \<open>
  The environment: the answer to each kind of call, as a function of everything that has
  happened so far. \<open>get_events\<close>, \<open>get_amp\<close> and \<open>get_pw\<close> are the read-only queries of a
  \<open>Scheduler\<close>; an event is seen through \<open>get_channel()\<close> only. \<open>from_bytes\<close> is the
  runtime library's \<open>std::wstring_convert<std::codecvt_utf8<wchar_t>>().from_bytes\<close>, a
  function of the bytes alone: \<open>Some\<close> of the wide string it returns, \<open>None\<close> where it
  throws \<open>std::range_error\<close> (the converter is default-constructed, so it has no error
  string to return instead).
\<close>

record world =
  answer :: "history \<Rightarrow> io_op \<Rightarrow> bool"
  new_handle :: "history \<Rightarrow> wstring \<Rightarrow> handle"
  from_bytes :: "string \<Rightarrow> wstring option"
  incoming :: "history \<Rightarrow> handle \<Rightarrow> read_message"
  all_incoming :: "history \<Rightarrow> handle list \<Rightarrow> nat \<Rightarrow> read_message list"
  get_events :: "history \<Rightarrow> nat \<Rightarrow> channel list"
  get_amp :: "history \<Rightarrow> nat \<Rightarrow> channel \<Rightarrow> nat"
  get_pw :: "history \<Rightarrow> nat \<Rightarrow> channel \<Rightarrow> nat"

text \<open>
  The fields of \<open>Stimulator\<close>. \<open>m_hComms\<close>, \<open>m_com_ports\<close> and \<open>m_schedulers\<close> are
  two-element tables over \<open>m_hComm_1/2\<close>, \<open>m_com_port_1/2\<close> and \<open>m_scheduler_1/2\<close>;
  the schedulers themselves live in the environment and are addressed by their index.
  \<open>history\<close> is the log of external calls, not a field of the class.
\<close>

record stimulator =
  m_name :: string
  m_com_port_1 :: string
  m_com_port_2 :: string
  m_hComm_1 :: handle
  m_hComm_2 :: handle
  m_enabled :: bool
  m_is_virtual :: bool
  m_channels :: "channel list"
  m_num_ports :: nat
  m_delay_time :: nat
  num_events :: nat
  amplitudes :: "nat list"
  pulsewidths :: "nat list"
  max_amplitudes :: "nat list"
  max_pulsewidths :: "nat list"
  channel_names :: "string list"
  history :: history

text \<open>
  The ways a call does not return. What C++ leaves undefined is a fault of the model: an
  index outside a vector (named with the index), and a \<open>double\<close> converted to
  \<open>unsigned int\<close> outside its range. So is the one exception the class lets escape: the
  \<open>std::range_error\<close> of converting a port name (named with the bytes), which nothing
  catches.
\<close>

datatype fault = IndexOutOfRange string nat | CastOutOfRange | RangeError string

section \<open>External calls\<close>

definition record_call :: "io_op \<Rightarrow> reply \<Rightarrow> stimulator \<Rightarrow> stimulator" where
  "record_call op r st = st\<lparr>history := history st @ [(op, r)]\<rparr>"

definition call_void :: "io_op \<Rightarrow> stimulator \<Rightarrow> stimulator" where
  "call_void op st = record_call op Done st"

definition call_bool :: "world \<Rightarrow> io_op \<Rightarrow> stimulator \<Rightarrow> bool \<times> stimulator" where
  "call_bool w op st =
     (let b = answer w (history st) op in (b, record_call op (Flag b) st))"

definition new_events :: "stimulator \<Rightarrow> stimulator \<Rightarrow> history" where
  "new_events st st' = drop (length (history st)) (history st')"

section \<open>The two-element tables\<close>

definition m_hComms :: "nat \<Rightarrow> stimulator \<Rightarrow> fault + handle" where
  "m_hComms i st =
     (if i = 0 then Inr (m_hComm_1 st)
      else if i = 1 then Inr (m_hComm_2 st)
      else Inl (IndexOutOfRange ''m_hComms'' i))"

definition m_com_ports :: "nat \<Rightarrow> stimulator \<Rightarrow> fault + string" where
  "m_com_ports i st =
     (if i = 0 then Inr (m_com_port_1 st)
      else if i = 1 then Inr (m_com_port_2 st)
      else Inl (IndexOutOfRange ''m_com_ports'' i))"

definition m_schedulers :: "nat \<Rightarrow> fault + nat" where
  "m_schedulers i = (if i < 2 then Inr i else Inl (IndexOutOfRange ''m_schedulers'' i))"

definition set_hComm :: "nat \<Rightarrow> handle \<Rightarrow> stimulator \<Rightarrow> stimulator" where
  "set_hComm i h st = (if i = 0 then st\<lparr>m_hComm_1 := h\<rparr> else st\<lparr>m_hComm_2 := h\<rparr>)"

section \<open>Loops over the ports\<close>

text \<open>\<open>for (size_t i = 0; i < m_num_ports; i++) body(i);\<close> runs the body over \<open>[0..<m_num_ports]\<close>.\<close>

fun for_each :: "(nat \<Rightarrow> stimulator \<Rightarrow> fault + stimulator) \<Rightarrow> nat list \<Rightarrow> stimulator
    \<Rightarrow> fault + stimulator" where
  "for_each body [] st = Inr st"
| "for_each body (i # is) st =
     (case body i st of Inl e \<Rightarrow> Inl e | Inr st' \<Rightarrow> for_each body is st')"

text \<open>
  The same loop around \<open>if (!body(i)) success = false;\<close>: every index is visited, and
  \<open>success\<close> is carried along.
\<close>

fun for_each_success :: "(nat \<Rightarrow> stimulator \<Rightarrow> fault + bool \<times> stimulator) \<Rightarrow> nat list \<Rightarrow> bool
    \<Rightarrow> stimulator \<Rightarrow> fault + bool \<times> stimulator" where
  "for_each_success body [] success st = Inr (success, st)"
| "for_each_success body (i # is) success st =
     (case body i st of
        Inl e \<Rightarrow> Inl e
      | Inr (ok, st') \<Rightarrow> for_each_success body is (if \<not> ok then False else success) st')"

section \<open>\<open>disable\<close> and \<open>close_stimulator\<close>\<close>

definition is_enabled :: "stimulator \<Rightarrow> bool" where
  "is_enabled st = m_enabled st"

definition close_stimulator :: "stimulator \<Rightarrow> fault + stimulator" where
  "close_stimulator st =
     (case for_each
             (\<lambda>i s. case m_hComms i s of
                       Inl e \<Rightarrow> Inl e
                     | Inr h \<Rightarrow> Inr (call_void (CloseHandle h) s))
             [0..<m_num_ports st] st of
        Inl e \<Rightarrow> Inl e
      | Inr st' \<Rightarrow> Inr (st'\<lparr>m_enabled := False\<rparr>))"

definition disable :: "stimulator \<Rightarrow> fault + stimulator" where
  "disable st =
     (if is_enabled st then
        (case for_each
                (\<lambda>i s. case m_schedulers i of
                          Inl e \<Rightarrow> Inl e
                        | Inr j \<Rightarrow> Inr (call_void (Scheduler_disable j) s))
                [0..<m_num_ports st] st of
           Inl e \<Rightarrow> Inl e
         | Inr st1 \<Rightarrow>
             (case close_stimulator st1 of
                Inl e \<Rightarrow> Inl e
              | Inr st2 \<Rightarrow>
                  Inr ((call_void (LOG Info ''Stimulator Disabled'') st2)\<lparr>m_enabled := False\<rparr>)))
      else
        Inr ((call_void (LOG Info ''Stimulator has not been enabled yet.'') st)
               \<lparr>m_enabled := False\<rparr>))"

section \<open>\<open>open_port\<close> and \<open>configure_port\<close>\<close>

text \<open>
  \<open>open_port(HANDLE* hComm, std::string com_port)\<close>: the pointer is the index of the
  handle it points to. \<open>com_prefix\<close> is the wide literal of the source, the four
  characters backslash, backslash, dot, backslash. \<open>com_suffix\<close> is the port name decoded from
  UTF-8, and the function is left by the exception when the decoder throws.
  \<open>CreateFileW\<close> is given \<open>comID.c_str()\<close>, which it reads up to the first null
  character. The log lines print the bytes of \<open>com_port\<close>.
\<close>

definition com_prefix :: wstring where
  "com_prefix = [0x5C, 0x5C, 0x2E, 0x5C]"

definition c_str :: "wstring \<Rightarrow> wstring" where
  "c_str s = takeWhile (\<lambda>c. c \<noteq> 0) s"

definition open_port :: "world \<Rightarrow> nat \<Rightarrow> string \<Rightarrow> stimulator \<Rightarrow> fault + bool \<times> stimulator" where
  "open_port w hComm com_port st =
     (case from_bytes w com_port of
        None \<Rightarrow> Inl (RangeError com_port)
      | Some com_suffix \<Rightarrow>
          (let comID = com_prefix @ com_suffix;
               h = new_handle w (history st) (c_str comID);
               st1 = record_call (CreateFileW (c_str comID)) (Opened h) (set_hComm hComm h st)
           in if h = INVALID_HANDLE_VALUE then
                Inr (False, call_void (LOG Error (''Failed to open port '' @ com_port)) st1)
              else
                Inr (True, call_void (LOG Info (''Successfully opened port '' @ com_port)) st1)))"

text \<open>
  \<open>configure_port(HANDLE* hComm)\<close>. The fields written to \<open>m_dcbSerialParams\<close> (9600 baud,
  8 data bits, one stop bit, no parity, no flow control) and the time-outs travel with
  \<open>SetCommState\<close> and \<open>SetCommTimeouts\<close>; only the success of each call is observed.
\<close>

definition configure_port :: "world \<Rightarrow> handle \<Rightarrow> stimulator \<Rightarrow> bool \<times> stimulator" where
  "configure_port w h st =
     (case call_bool w (GetCommState h) st of
        (got, st1) \<Rightarrow>
          if \<not> got then (False, call_void (LOG Error ''Error getting serial port state'') st1)
          else
            (case call_bool w (SetCommState h) st1 of
               (applied, st2) \<Rightarrow>
                 if \<not> applied then
                   (False, call_void (LOG Error ''Error setting serial port state'') st2)
                 else
                   (case call_bool w (SetCommTimeouts h) st2 of
                      (timed, st3) \<Rightarrow>
                        if \<not> timed then
                          (False,
                           call_void (LOG Error ''Error setting serial port timeouts'') st3)
                        else
                          (True,
                           call_void (PurgeComm h PURGE_TXCLEAR)
                             (call_void (PurgeComm h PURGE_RXCLEAR)
                                (call_void (PurgeComm h PURGE_RXABORT)
                                   (call_void (PurgeComm h PURGE_TXABORT) st3)))))))"

section \<open>\<open>initialize_board\<close> and \<open>enable\<close>\<close>

text \<open>
  The loop of \<open>initialize_board\<close> over \<open>m_channels[i]\<close>, \<open>i < m_channels.size()\<close>, as a
  recursion over the channels that are left; it returns at the first failed setup.
\<close>

fun initialize_channels :: "world \<Rightarrow> channel list \<Rightarrow> stimulator \<Rightarrow> fault + bool \<times> stimulator" where
  "initialize_channels w [] st = Inr (True, st)"
| "initialize_channels w (c # cs) st =
     (case m_hComms (board_num c) st of
        Inl e \<Rightarrow> Inl e
      | Inr h \<Rightarrow>
          (case call_bool w (Channel_setup_channel c h (m_delay_time st)) st of
             (ok, st1) \<Rightarrow> if \<not> ok then Inr (False, st1) else initialize_channels w cs st1))"

definition initialize_board :: "world \<Rightarrow> stimulator \<Rightarrow> fault + bool \<times> stimulator" where
  "initialize_board w st =
     (case initialize_channels w (m_channels st) st of
        Inl e \<Rightarrow> Inl e
      | Inr (ok, st1) \<Rightarrow>
          if \<not> ok then Inr (False, st1)
          else Inr (True, call_void (LOG Info ''Setup Completed successfully.'') st1))"

text \<open>
  The port loop of \<open>enable\<close>. \<open>Some b\<close> is a \<open>return b\<close> from inside the loop, \<open>None\<close>
  is the loop running to its end.
\<close>

fun enable_ports :: "world \<Rightarrow> nat list \<Rightarrow> stimulator \<Rightarrow> fault + bool option \<times> stimulator" where
  "enable_ports w [] st = Inr (None, st)"
| "enable_ports w (i # is) st =
     (case m_com_ports i st of
        Inl e \<Rightarrow> Inl e
      | Inr com_port \<Rightarrow>
          (case open_port w i com_port st of
             Inl e \<Rightarrow> Inl e
           | Inr (opened, st1) \<Rightarrow>
               if \<not> opened then
                 (case disable st1 of
                    Inl e \<Rightarrow> Inl e
                  | Inr st2 \<Rightarrow> Inr (Some (m_enabled st2), st2))
               else
                 (case m_hComms i st1 of
                    Inl e \<Rightarrow> Inl e
                  | Inr h \<Rightarrow>
                      (case configure_port w h st1 of
                         (configured, st2) \<Rightarrow>
                           if \<not> configured then
                             (case disable st2 of
                                Inl e \<Rightarrow> Inl e
                              | Inr st3 \<Rightarrow> Inr (Some (m_enabled st3), st3))
                           else enable_ports w is st2))))"

definition enable :: "world \<Rightarrow> stimulator \<Rightarrow> fault + bool \<times> stimulator" where
  "enable w st =
     (case enable_ports w [0..<m_num_ports st] st of
        Inl e \<Rightarrow> Inl e
      | Inr (Some b, st1) \<Rightarrow> Inr (b, st1)
      | Inr (None, st1) \<Rightarrow>
          (case initialize_board w st1 of
             Inl e \<Rightarrow> Inl e
           | Inr (ok, st2) \<Rightarrow>
               if \<not> ok then
                 (case disable st2 of
                    Inl e \<Rightarrow> Inl e
                  | Inr st3 \<Rightarrow> Inr (m_enabled st3, st3))
               else Inr (True, st2\<lparr>m_enabled := True\<rparr>)))"

section \<open>The constructor\<close>

text \<open>
  \<open>m_num_ports\<close>, \<open>m_delay_time\<close> and the two handles get no value in the constructor's
  initialiser list: what they hold when its body starts (the header's in-class
  initialisers, which are not among the sources) are the last four parameters.
  \<open>initialised\<close> is the object when the body reaches its last statement, \<open>enable()\<close>.
\<close>

definition initialised :: "string \<Rightarrow> channel list \<Rightarrow> string \<Rightarrow> string \<Rightarrow> bool
    \<Rightarrow> nat \<Rightarrow> nat \<Rightarrow> handle \<Rightarrow> handle \<Rightarrow> stimulator" where
  "initialised name channels com_port_1 com_port_2 is_virtual
       num_ports0 delay_time0 hComm_1_0 hComm_2_0 =
     (let st0 = \<lparr>m_name = name,
                 m_com_port_1 = com_port_1,
                 m_com_port_2 = com_port_2,
                 m_hComm_1 = hComm_1_0,
                 m_hComm_2 = hComm_2_0,
                 m_enabled = False,
                 m_is_virtual = is_virtual,
                 m_channels = channels,
                 m_num_ports = num_ports0,
                 m_delay_time = delay_time0,
                 num_events = length channels,
                 amplitudes = replicate (length channels) 0,
                 pulsewidths = replicate (length channels) 0,
                 max_amplitudes = map max_amplitude channels,
                 max_pulsewidths = map max_pulse_width channels,
                 channel_names = map channel_name channels,
                 history = []\<rparr>
      in if com_port_2 \<noteq> ''NONE'' then st0\<lparr>m_num_ports := 2\<rparr> else st0)"

definition Stimulator :: "world \<Rightarrow> string \<Rightarrow> channel list \<Rightarrow> string \<Rightarrow> string \<Rightarrow> bool
    \<Rightarrow> nat \<Rightarrow> nat \<Rightarrow> handle \<Rightarrow> handle \<Rightarrow> fault + stimulator" where
  "Stimulator w name channels com_port_1 com_port_2 is_virtual
       num_ports0 delay_time0 hComm_1_0 hComm_2_0 =
     (case enable w
             (initialised name channels com_port_1 com_port_2 is_virtual
                num_ports0 delay_time0 hComm_1_0 hComm_2_0) of
        Inl e \<Rightarrow> Inl e
      | Inr (_, st) \<Rightarrow> Inr st)"

section \<open>\<open>halt_scheduler\<close> and \<open>begin\<close>\<close>

definition halt_scheduler :: "world \<Rightarrow> stimulator \<Rightarrow> fault + bool \<times> stimulator" where
  "halt_scheduler w st =
     for_each_success
       (\<lambda>i s. case m_schedulers i of
                 Inl e \<Rightarrow> Inl e
               | Inr j \<Rightarrow> Inr (call_bool w (Scheduler_halt_scheduler j) s))
       [0..<m_num_ports st] True st"

definition begin_stim :: "world \<Rightarrow> stimulator \<Rightarrow> fault + bool \<times> stimulator" where
  "begin_stim w st =
     (if is_enabled st then
        (let st1 = st\<lparr>m_enabled := True\<rparr>
         in for_each_success
              (\<lambda>i s. case m_schedulers i of
                        Inl e \<Rightarrow> Inl e
                      | Inr j \<Rightarrow> Inr (call_bool w (Scheduler_send_sync_msg j) s))
              [0..<m_num_ports st1] True st1)
      else
        Inr (False,
             call_void
               (LOG Error ''Stimulator has not yet been opened. Not starting the stimulator'')
               st))"

section \<open>Writing amplitudes and pulse widths\<close>

definition set_amp :: "channel \<Rightarrow> nat \<Rightarrow> stimulator \<Rightarrow> fault + stimulator" where
  "set_amp c amp st =
     (if is_enabled st then
        (case m_schedulers (board_num c) of
           Inl e \<Rightarrow> Inl e
         | Inr j \<Rightarrow> Inr (call_void (Scheduler_set_amp j c amp) st))
      else
        Inr (call_void
               (LOG Error ''Stimulator has not yet been enabled. Not writing amplitude'') st))"

definition write_pw :: "channel \<Rightarrow> nat \<Rightarrow> stimulator \<Rightarrow> fault + stimulator" where
  "write_pw c pw st =
     (if is_enabled st then
        (case m_schedulers (board_num c) of
           Inl e \<Rightarrow> Inl e
         | Inr j \<Rightarrow> Inr (call_void (Scheduler_write_pw j c pw) st))
      else
        Inr (call_void
               (LOG Error ''Stimulator has not yet been enabled. Not writing pulsewidth'') st))"

text \<open>
  \<open>set_amps\<close> and \<open>write_pws\<close> run \<open>i\<close> over \<open>[0..<channels_.size()]\<close>, so \<open>channels_[i]\<close>
  is always inside its vector; \<open>amplitudes_[i]\<close> and \<open>pulsewidths_[i]\<close> are read with no
  check against the length of theirs.
\<close>

definition set_amps :: "channel list \<Rightarrow> nat list \<Rightarrow> stimulator \<Rightarrow> fault + stimulator" where
  "set_amps chans amps st =
     for_each
       (\<lambda>i s. if i < length amps then set_amp (chans ! i) (amps ! i) s
               else Inl (IndexOutOfRange ''amplitudes_'' i))
       [0..<length chans] st"

definition write_pws :: "channel list \<Rightarrow> nat list \<Rightarrow> stimulator \<Rightarrow> fault + stimulator" where
  "write_pws chans pws st =
     for_each
       (\<lambda>i s. if i < length pws then write_pw (chans ! i) (pws ! i) s
               else Inl (IndexOutOfRange ''pulsewidths_'' i))
       [0..<length chans] st"

section \<open>\<open>update\<close>\<close>

definition store :: "string \<Rightarrow> nat list \<Rightarrow> nat \<Rightarrow> nat \<Rightarrow> fault + nat list" where
  "store name xs i v = (if i < length xs then Inr (xs[i := v]) else Inl (IndexOutOfRange name i))"

text \<open>The body of the inner loop of the locked block, for the event on channel \<open>c\<close> of port \<open>j\<close>.\<close>

definition snapshot_event :: "world \<Rightarrow> nat \<Rightarrow> channel \<Rightarrow> stimulator \<Rightarrow> fault + stimulator" where
  "snapshot_event w j c st =
     (case store ''amplitudes'' (amplitudes st) (channel_num c) (get_amp w (history st) j c) of
        Inl e \<Rightarrow> Inl e
      | Inr a \<Rightarrow>
     (case store ''pulsewidths'' (pulsewidths st) (channel_num c) (get_pw w (history st) j c) of
        Inl e \<Rightarrow> Inl e
      | Inr p \<Rightarrow>
     (case store ''max_amplitudes'' (max_amplitudes st) (channel_num c) (max_amplitude c) of
        Inl e \<Rightarrow> Inl e
      | Inr ma \<Rightarrow>
     (case store ''max_pulsewidths'' (max_pulsewidths st) (channel_num c) (max_pulse_width c) of
        Inl e \<Rightarrow> Inl e
      | Inr mp \<Rightarrow>
          Inr (st\<lparr>amplitudes := a, pulsewidths := p,
                  max_amplitudes := ma, max_pulsewidths := mp\<rparr>)))))"

fun snapshot_events :: "world \<Rightarrow> nat \<Rightarrow> channel list \<Rightarrow> stimulator \<Rightarrow> fault + stimulator" where
  "snapshot_events w j [] st = Inr st"
| "snapshot_events w j (c # cs) st =
     (case snapshot_event w j c st of Inl e \<Rightarrow> Inl e | Inr st' \<Rightarrow> snapshot_events w j cs st')"

text \<open>
  The locked block: \<open>get_events()[i]\<close> for \<open>i < get_num_events()\<close> walks the scheduler's
  events in order.
\<close>

definition update_snapshot :: "world \<Rightarrow> stimulator \<Rightarrow> fault + stimulator" where
  "update_snapshot w st =
     for_each
       (\<lambda>j s. case m_schedulers j of
                 Inl e \<Rightarrow> Inl e
               | Inr k \<Rightarrow> snapshot_events w k (get_events w (history s) k) s)
       [0..<m_num_ports st] st"

text \<open>The loop over \<open>incoming_messages\<close>.\<close>

fun check_messages :: "read_message list \<Rightarrow> bool \<Rightarrow> stimulator \<Rightarrow> bool \<times> stimulator" where
  "check_messages [] success st = (success, st)"
| "check_messages (m # ms) success st =
     (if \<not> is_valid m then
        check_messages ms False
          (call_void (Print_message (get_message m))
             (call_void
                (LOG Error
                   ''Return message (below) either invalid or an error. Disabling stimulator.'')
                st))
      else check_messages ms success st)"

definition update :: "world \<Rightarrow> stimulator \<Rightarrow> fault + bool \<times> stimulator" where
  "update w st =
     (if is_enabled st then
        (case update_snapshot w st of
           Inl e \<Rightarrow> Inl e
         | Inr st1 \<Rightarrow>
        (case for_each_success
                (\<lambda>i s. case m_schedulers i of
                          Inl e \<Rightarrow> Inl e
                        | Inr j \<Rightarrow> Inr (call_bool w (Scheduler_update j) s))
                [0..<m_num_ports st1] True st1 of
           Inl e \<Rightarrow> Inl e
         | Inr (success, st2) \<Rightarrow>
             (let hs = [m_hComm_1 st2, m_hComm_2 st2];
                  incoming_messages = all_incoming w (history st2) hs (m_num_ports st2);
                  st3 = record_call (Get_all_messages hs (m_num_ports st2))
                          (Frames incoming_messages) st2
              in case check_messages incoming_messages success st3 of
                   (success', st4) \<Rightarrow>
                     if \<not> success' then
                       (case disable st4 of
                          Inl e \<Rightarrow> Inl e
                        | Inr st5 \<Rightarrow> Inr (success', st5))
                     else Inr (success', st4))))
      else
        Inr (False,
             call_void (LOG Error ''Stimulator has not yet been enabled. Not updating'') st))"

section \<open>Double-precision arithmetic of the tick duration\<close>

text \<open>
  \<open>frequency_\<close> is an IEEE 754 binary64 number. \<open>Finite m e\<close> is the number \<open>m * 2 ^ e\<close>
  (the same number has several such names; both zeros are \<open>Finite 0 e\<close>). The three
  operations \<open>create_scheduler\<close> uses are written out with their rounding: to nearest, ties
  to even, 53 significant bits, least exponent \<open>-1074\<close>, overflow to infinity from
  \<open>2 ^ 1024\<close> on.
\<close>

datatype double = Finite int int | PosInf | NegInf | NaN

definition is_double :: "double \<Rightarrow> bool" where
  "is_double f =
     (case f of Finite m e \<Rightarrow> \<bar>m\<bar> < 2 ^ 53 \<and> - 1074 \<le> e \<and> e \<le> 971 | _ \<Rightarrow> True)"

function bit_length :: "int \<Rightarrow> int" where
  "bit_length n = (if n \<le> 0 then 0 else 1 + bit_length (n div 2))"
  by pat_completeness auto
termination
  by (relation "measure nat") auto

declare bit_length.simps [simp del]

text \<open>\<open>scale n k\<close> is \<open>n * 2 ^ k\<close> for \<open>k \<ge> 0\<close> and \<open>n\<close> otherwise.\<close>

definition scale :: "int \<Rightarrow> int \<Rightarrow> int" where
  "scale n k = (if 0 \<le> k then n * 2 ^ nat k else n)"

text \<open>The integer part of the binary logarithm of \<open>n / d\<close>, for positive \<open>n\<close> and \<open>d\<close>.\<close>

definition ilog2_ratio :: "int \<Rightarrow> int \<Rightarrow> int" where
  "ilog2_ratio n d =
     (let k = bit_length n - bit_length d
      in if scale d k \<le> scale n (- k) then k else k - 1)"

text \<open>\<open>n / d\<close> rounded to the nearest integer, a tie to the even one.\<close>

definition round_half_even :: "int \<Rightarrow> int \<Rightarrow> int" where
  "round_half_even n d =
     (let q = n div d; r = n mod d
      in if 2 * r < d then q else if d < 2 * r then q + 1 else if even q then q else q + 1)"

text \<open>
  \<open>(n / d) * 2 ^ s\<close> rounded to 53 bits: the significand and the exponent of its last bit.
\<close>

definition round_to_double :: "int \<Rightarrow> int \<Rightarrow> int \<Rightarrow> int \<times> int" where
  "round_to_double n d s =
     (let e = max (ilog2_ratio n d + s) (- 1022);
          t = e - 52;
          q = round_half_even (scale n (s - t)) (scale d (t - s))
      in (q, t))"

definition overflows :: "int \<times> int \<Rightarrow> bool" where
  "overflows x = (case x of (q, t) \<Rightarrow> 971 \<le> t \<and> 2 ^ 53 \<le> q * 2 ^ nat (t - 971))"

definition to_double :: "bool \<Rightarrow> int \<Rightarrow> int \<Rightarrow> int \<Rightarrow> double" where
  "to_double negative n d s =
     (if n = 0 then Finite 0 0
      else
        (let x = round_to_double n d s
         in if overflows x then (if negative then NegInf else PosInf)
            else Finite (if negative then - fst x else fst x) (snd x)))"

text \<open>\<open>frequency_ > 0\<close>, \<open>1.0 / frequency_\<close>, \<open>... * 1000\<close> and \<open>(unsigned int) ...\<close>.\<close>

definition double_gt_zero :: "double \<Rightarrow> bool" where
  "double_gt_zero f =
     (case f of Finite m e \<Rightarrow> 0 < m | PosInf \<Rightarrow> True | NegInf \<Rightarrow> False | NaN \<Rightarrow> False)"

definition one_over :: "double \<Rightarrow> double" where
  "one_over f =
     (case f of
        Finite m e \<Rightarrow> (if m = 0 then PosInf else to_double (m < 0) 1 \<bar>m\<bar> (- e))
      | PosInf \<Rightarrow> Finite 0 0
      | NegInf \<Rightarrow> Finite 0 0
      | NaN \<Rightarrow> NaN)"

definition times_1000 :: "double \<Rightarrow> double" where
  "times_1000 f =
     (case f of
        Finite m e \<Rightarrow> to_double (m < 0) (\<bar>m\<bar> * 1000) 1 e
      | PosInf \<Rightarrow> PosInf
      | NegInf \<Rightarrow> NegInf
      | NaN \<Rightarrow> NaN)"

text \<open>
  The conversion truncates towards zero; it is undefined when the truncated value is not
  an \<open>unsigned int\<close> (32 bits).
\<close>

definition to_unsigned_int :: "double \<Rightarrow> fault + 32 word" where
  "to_unsigned_int f =
     (case f of
        Finite m e \<Rightarrow>
          (let t = (if 0 \<le> e then \<bar>m\<bar> * 2 ^ nat e else \<bar>m\<bar> div 2 ^ nat (- e))
           in if (m < 0 \<longrightarrow> t = 0) \<and> t < 2 ^ 32 then Inr (word_of_int t)
              else Inl CastOutOfRange)
      | PosInf \<Rightarrow> Inl CastOutOfRange
      | NegInf \<Rightarrow> Inl CastOutOfRange
      | NaN \<Rightarrow> Inl CastOutOfRange)"

text \<open>The first statement of \<open>create_scheduler\<close>.\<close>

definition tick_duration :: "double \<Rightarrow> fault + 32 word" where
  "tick_duration frequency =
     (if double_gt_zero frequency then to_unsigned_int (times_1000 (one_over frequency))
      else Inr 50)"

text \<open>
  The duration as the specification words it, \<open>1000 / frequency\<close> truncated, in exact
  arithmetic.
\<close>

definition spec_duration :: "double \<Rightarrow> int" where
  "spec_duration f =
     (case f of Finite m e \<Rightarrow> \<lfloor>(1000 :: rat) / (of_int m * 2 powi e)\<rfloor> | _ \<Rightarrow> 0)"

text \<open>
  The same words read in double precision: \<open>1000.0 / frequency\<close>, one division rounded
  once, then truncated.
\<close>

definition thousand_over :: "double \<Rightarrow> double" where
  "thousand_over f =
     (case f of
        Finite m e \<Rightarrow> (if m = 0 then PosInf else to_double (m < 0) 1000 \<bar>m\<bar> (- e))
      | PosInf \<Rightarrow> Finite 0 0
      | NegInf \<Rightarrow> Finite 0 0
      | NaN \<Rightarrow> NaN)"

section \<open>\<open>create_scheduler\<close>\<close>

text \<open>
  The loop over the ports. The \<open>success\<close> it computes is a variable of the loop body,
  declared there anew; it is written and never read. \<open>Some b\<close> is \<open>return b\<close> from inside
  the loop.
\<close>

fun create_schedulers :: "world \<Rightarrow> byte \<Rightarrow> 32 word \<Rightarrow> nat list \<Rightarrow> stimulator
    \<Rightarrow> fault + bool option \<times> stimulator" where
  "create_schedulers w sync_msg duration [] st = Inr (None, st)"
| "create_schedulers w sync_msg duration (i # is) st =
     (case m_schedulers i of
        Inl e \<Rightarrow> Inl e
      | Inr j \<Rightarrow>
     (case m_hComms i st of
        Inl e \<Rightarrow> Inl e
      | Inr h \<Rightarrow>
     (case call_bool w (Scheduler_create_scheduler j h sync_msg duration (m_delay_time st)) st of
        (success, st1) \<Rightarrow>
          if \<not> m_is_virtual st1 then
            (let scheduler_created_msg = incoming w (history st1) h;
                 st2 = record_call (Read_message h True) (Frame scheduler_created_msg) st1
             in if is_valid scheduler_created_msg then
                  (case get_data scheduler_created_msg of
                     [] \<Rightarrow> Inl (IndexOutOfRange ''get_data'' 0)
                   | b # _ \<Rightarrow>
                       create_schedulers w sync_msg duration is
                         (call_void (Scheduler_set_id j b) st2))
                else
                  (case disable
                          (call_void (Print_message (get_message scheduler_created_msg))
                             (call_void
                                (LOG Error
                                   ''Scheduler created return message (below) was either invalid or an error. Disabling stimulator.'')
                                st2)) of
                     Inl e \<Rightarrow> Inl e
                   | Inr st3 \<Rightarrow> Inr (Some False, st3)))
          else create_schedulers w sync_msg duration is st1)))"

definition create_scheduler :: "world \<Rightarrow> byte \<Rightarrow> double \<Rightarrow> stimulator
    \<Rightarrow> fault + bool \<times> stimulator" where
  "create_scheduler w sync_msg frequency st =
     (case tick_duration frequency of
        Inl e \<Rightarrow> Inl e
      | Inr duration \<Rightarrow>
          if is_enabled st then
            (let success = False
             in case create_schedulers w sync_msg duration [0..<m_num_ports st] st of
                  Inl e \<Rightarrow> Inl e
                | Inr (Some b, st1) \<Rightarrow> Inr (b, st1)
                | Inr (None, st1) \<Rightarrow> Inr (success, st1))
          else
            Inr (False,
                 call_void
                   (LOG Error ''Stimulator has not yet been enabled. Not creating scheduler'')
                   st))"

section \<open>\<open>add_event\<close> and \<open>add_events\<close>\<close>

definition add_event :: "world \<Rightarrow> channel \<Rightarrow> byte \<Rightarrow> stimulator \<Rightarrow> fault + bool \<times> stimulator" where
  "add_event w c event_type st =
     (if is_enabled st then
        (case m_schedulers (board_num c) of
           Inl e \<Rightarrow> Inl e
         | Inr j \<Rightarrow> Inr (call_bool w (Scheduler_add_event j c (m_delay_time st) event_type) st))
      else
        Inr (False,
             call_void
               (LOG Error ''Stimulator has not yet been enabled. Not adding event to scheduler'')
               st))"

text \<open>The loop of \<open>add_events\<close> over \<open>channels_[i]\<close>, as a recursion over the channels left.\<close>

fun add_events_loop :: "world \<Rightarrow> channel list \<Rightarrow> byte \<Rightarrow> stimulator
    \<Rightarrow> fault + bool \<times> stimulator" where
  "add_events_loop w [] event_type st = Inr (True, st)"
| "add_events_loop w (c # cs) event_type st =
     (case add_event w c event_type st of
        Inl e \<Rightarrow> Inl e
      | Inr (ok, st1) \<Rightarrow>
          if \<not> ok then Inr (False, st1) else add_events_loop w cs event_type st1)"

definition add_events :: "world \<Rightarrow> channel list \<Rightarrow> byte \<Rightarrow> stimulator
    \<Rightarrow> fault + bool \<times> stimulator" where
  "add_events w chans event_type st =
     (if is_enabled st then add_events_loop w chans event_type st
      else
        Inr (False,
             call_void
               (LOG Error ''Stimulator has not yet been enabled. Not adding event to scheduler'')
               st))"

section \<open>Describing histories\<close>

text \<open>
  The events of asking the environment about \<open>op i\<close> for each \<open>i\<close> in turn, starting
  after the history \<open>h\<close>: each answer is given after everything before it.
\<close>

fun poll :: "world \<Rightarrow> (nat \<Rightarrow> io_op) \<Rightarrow> nat list \<Rightarrow> history \<Rightarrow> history" where
  "poll w op [] h = []"
| "poll w op (i # is) h =
     (let e = (op i, Flag (answer w h (op i))) in e # poll w op is (h @ [e]))"


text \<open>
  What the environment \<open>w\<close> replies to a call made after the history \<open>H\<close>: the handle it
  gives for \<open>CreateFileW\<close>, the frame, or the frames, it has for the two kinds of read,
  nothing for the calls whose result is \<open>void\<close> or is not looked at, and its answer for
  every other call. \<open>answered_by w H evs\<close>: every reply in the events \<open>evs\<close>, which
  follow the history \<open>H\<close>, is the reply of \<open>w\<close> to that call after \<open>H\<close> and the events
  before it. A history that is answered by \<open>w\<close> holds no outcome that \<open>w\<close> did not give.
\<close>

fun reply_of :: "world \<Rightarrow> history \<Rightarrow> io_op \<Rightarrow> reply" where
  "reply_of w H (CreateFileW name) = Opened (new_handle w H name)"
| "reply_of w H (Read_message h block) = Frame (incoming w H h)"
| "reply_of w H (Get_all_messages hs n) = Frames (all_incoming w H hs n)"
| "reply_of w H (LOG s m) = Done"
| "reply_of w H (PurgeComm h f) = Done"
| "reply_of w H (CloseHandle h) = Done"
| "reply_of w H (Scheduler_disable i) = Done"
| "reply_of w H (Scheduler_set_amp i c a) = Done"
| "reply_of w H (Scheduler_write_pw i c p) = Done"
| "reply_of w H (Scheduler_set_id i b) = Done"
| "reply_of w H (Print_message m) = Done"
| "reply_of w H op = Flag (answer w H op)"

fun answered_by :: "world \<Rightarrow> history \<Rightarrow> history \<Rightarrow> bool" where
  "answered_by w H [] = True"
| "answered_by w H (e # es) = (snd e = reply_of w H (fst e) \<and> answered_by w (H @ [e]) es)"

text \<open>What \<open>disable\<close> does to a stimulator with at most two ports.\<close>

definition shutdown_events :: "bool \<Rightarrow> nat \<Rightarrow> handle \<times> handle \<Rightarrow> history" where
  "shutdown_events on n p =
     (if on then
        map (\<lambda>i. (Scheduler_disable i, Done)) [0..<n] @
        map (\<lambda>i. (CloseHandle (if i = 0 then fst p else snd p), Done)) [0..<n] @
        [(LOG Info ''Stimulator Disabled'', Done)]
      else [(LOG Info ''Stimulator has not been enabled yet.'', Done)])"

definition disable_events :: "stimulator \<Rightarrow> history" where
  "disable_events st =
     shutdown_events (m_enabled st) (m_num_ports st) (m_hComm_1 st, m_hComm_2 st)"

text \<open>What the loop over the drained frames of \<open>update\<close> writes.\<close>

fun complaints :: "read_message list \<Rightarrow> history" where
  "complaints [] = []"
| "complaints (m # ms) =
     (if \<not> is_valid m then
        (LOG Error ''Return message (below) either invalid or an error. Disabling stimulator.'',
         Done) #
        (Print_message (get_message m), Done) # complaints ms
      else complaints ms)"


text \<open>Recognisers of external calls.\<close>

fun is_scheduler_update :: "io_op \<Rightarrow> bool" where
  "is_scheduler_update (Scheduler_update i) = True"
| "is_scheduler_update _ = False"

text \<open>What one \<open>set_amp\<close>, and one \<open>write_pw\<close>, adds to the history.\<close>

definition set_amp_event :: "stimulator \<Rightarrow> channel \<Rightarrow> nat \<Rightarrow> io_op \<times> reply" where
  "set_amp_event st c amp =
     (if is_enabled st then (Scheduler_set_amp (board_num c) c amp, Done)
      else (LOG Error ''Stimulator has not yet been enabled. Not writing amplitude'', Done))"

definition write_pw_event :: "stimulator \<Rightarrow> channel \<Rightarrow> nat \<Rightarrow> io_op \<times> reply" where
  "write_pw_event st c pw =
     (if is_enabled st then (Scheduler_write_pw (board_num c) c pw, Done)
      else (LOG Error ''Stimulator has not yet been enabled. Not writing pulsewidth'', Done))"


text \<open>
  The histories a run of the handshake loop of \<open>create_scheduler\<close> can write for the
  ports \<open>is\<close>, with the enabled flag the run leaves: for each port the call of
  \<open>Scheduler::create_scheduler\<close> with the sync byte, the duration and the delay; on a
  virtual stimulator nothing more; otherwise the frame read back, and then either
  \<open>set_id\<close> with the first byte of its payload when it is valid, or, when it is not, the
  error log, the printed frame and the shutdown, after which no further port is handled
  and the flag is false. The flag is true when the loop runs to its end.
\<close>

inductive handshake_trace ::
  "bool \<Rightarrow> byte \<Rightarrow> 32 word \<Rightarrow> nat \<Rightarrow> handle \<Rightarrow> handle \<Rightarrow> history \<Rightarrow> nat list \<Rightarrow> history
     \<Rightarrow> bool \<Rightarrow> bool"
  for virtual :: bool and sync_msg :: byte and duration :: "32 word" and delay :: nat
    and h1 :: handle and h2 :: handle and shutdown :: history
  where
    finished: "handshake_trace virtual sync_msg duration delay h1 h2 shutdown [] [] True"
  | unanswered:
      "virtual \<Longrightarrow>
       handshake_trace virtual sync_msg duration delay h1 h2 shutdown is evs alive \<Longrightarrow>
       handshake_trace virtual sync_msg duration delay h1 h2 shutdown (i # is)
         ((Scheduler_create_scheduler i (if i = 0 then h1 else h2) sync_msg duration delay,
           Flag ok) # evs) alive"
  | acknowledged:
      "\<not> virtual \<Longrightarrow> is_valid m \<Longrightarrow> get_data m = b # bs \<Longrightarrow>
       handshake_trace virtual sync_msg duration delay h1 h2 shutdown is evs alive \<Longrightarrow>
       handshake_trace virtual sync_msg duration delay h1 h2 shutdown (i # is)
         ((Scheduler_create_scheduler i (if i = 0 then h1 else h2) sync_msg duration delay,
           Flag ok) #
          (Read_message (if i = 0 then h1 else h2) True, Frame m) #
          (Scheduler_set_id i b, Done) # evs) alive"
  | refused:
      "\<not> virtual \<Longrightarrow> \<not> is_valid m \<Longrightarrow>
       handshake_trace virtual sync_msg duration delay h1 h2 shutdown (i # is)
         ((Scheduler_create_scheduler i (if i = 0 then h1 else h2) sync_msg duration delay,
           Flag ok) #
          (Read_message (if i = 0 then h1 else h2) True, Frame m) #
          (LOG Error
             ''Scheduler created return message (below) was either invalid or an error. Disabling stimulator.'',
           Done) #
          (Print_message (get_message m), Done) # shutdown) False"


definition acknowledges_with_payload :: "world \<Rightarrow> bool" where
  "acknowledges_with_payload w =
     (\<forall>H h. is_valid (incoming w H h) \<longrightarrow> get_data (incoming w H h) \<noteq> [])"

text \<open>
  The histories of \<open>enable\<close>. What opening a port writes when it succeeds and when it
  fails, for the bytes of the port name and the wide string they decode to, and what
  \<open>configure_port\<close> writes for the answers to its three calls.
\<close>

definition opened_events :: "string \<Rightarrow> wstring \<Rightarrow> handle \<Rightarrow> history" where
  "opened_events com_port com_suffix h =
     [(CreateFileW (c_str (com_prefix @ com_suffix)), Opened h),
      (LOG Info (''Successfully opened port '' @ com_port), Done)]"

definition open_failed_events :: "string \<Rightarrow> wstring \<Rightarrow> history" where
  "open_failed_events com_port com_suffix =
     [(CreateFileW (c_str (com_prefix @ com_suffix)), Opened INVALID_HANDLE_VALUE),
      (LOG Error (''Failed to open port '' @ com_port), Done)]"

definition configure_events :: "handle \<Rightarrow> bool \<Rightarrow> bool \<Rightarrow> bool \<Rightarrow> history" where
  "configure_events h got applied timed =
     (GetCommState h, Flag got) #
     (if \<not> got then [(LOG Error ''Error getting serial port state'', Done)]
      else
        (SetCommState h, Flag applied) #
        (if \<not> applied then [(LOG Error ''Error setting serial port state'', Done)]
         else
           (SetCommTimeouts h, Flag timed) #
           (if \<not> timed then [(LOG Error ''Error setting serial port timeouts'', Done)]
            else
              [(PurgeComm h PURGE_TXABORT, Done), (PurgeComm h PURGE_RXABORT, Done),
               (PurgeComm h PURGE_RXCLEAR, Done), (PurgeComm h PURGE_TXCLEAR, Done)])))"

text \<open>
  \<open>bring_up conv port1 port2 delay on n p is cs evs p' b\<close>: \<open>evs\<close> is a history of
  bringing up the ports \<open>is\<close> and then the channels \<open>cs\<close>, from the handles \<open>p\<close>, with the
  handles \<open>p'\<close> at its end and the result \<open>b\<close>; \<open>conv\<close> decodes the port names. Each port
  is opened under its decoded name and then configured with the handle just opened; the
  channels are set up, in order, only when no port is left. The first step that fails is
  followed by the shutdown of \<open>disable\<close> and by nothing else, and the result is false;
  the result is true only at the end of a history in which every step succeeded.
\<close>

inductive bring_up ::
  "(string \<Rightarrow> wstring option) \<Rightarrow> string \<Rightarrow> string \<Rightarrow> nat \<Rightarrow> bool \<Rightarrow> nat \<Rightarrow> handle \<times> handle
     \<Rightarrow> nat list \<Rightarrow> channel list \<Rightarrow> history \<Rightarrow> handle \<times> handle \<Rightarrow> bool \<Rightarrow> bool"
  for conv :: "string \<Rightarrow> wstring option" and port1 :: string and port2 :: string
    and delay :: nat and on :: bool and n :: nat
  where
    completed:
      "bring_up conv port1 port2 delay on n p [] []
         [(LOG Info ''Setup Completed successfully.'', Done)] p True"
  | channel_set_up:
      "bring_up conv port1 port2 delay on n p [] cs evs p' b \<Longrightarrow>
       bring_up conv port1 port2 delay on n p [] (c # cs)
         ((Channel_setup_channel c (if board_num c = 0 then fst p else snd p) delay, Flag True)
          # evs) p' b"
  | channel_failed:
      "bring_up conv port1 port2 delay on n p [] (c # cs)
         ((Channel_setup_channel c (if board_num c = 0 then fst p else snd p) delay, Flag False)
          # shutdown_events on n p) p False"
  | port_ready:
      "conv (if i = 0 then port1 else port2) = Some wide \<Longrightarrow>
       h \<noteq> INVALID_HANDLE_VALUE \<Longrightarrow>
       bring_up conv port1 port2 delay on n (if i = 0 then (h, snd p) else (fst p, h)) is cs
         evs p' b \<Longrightarrow>
       bring_up conv port1 port2 delay on n p (i # is) cs
         (opened_events (if i = 0 then port1 else port2) wide h @
          configure_events h True True True @ evs) p' b"
  | port_not_opened:
      "conv (if i = 0 then port1 else port2) = Some wide \<Longrightarrow>
       bring_up conv port1 port2 delay on n p (i # is) cs
         (open_failed_events (if i = 0 then port1 else port2) wide @
          shutdown_events on n
            (if i = 0 then (INVALID_HANDLE_VALUE, snd p) else (fst p, INVALID_HANDLE_VALUE)))
         (if i = 0 then (INVALID_HANDLE_VALUE, snd p) else (fst p, INVALID_HANDLE_VALUE))
         False"
  | port_not_configured:
      "conv (if i = 0 then port1 else port2) = Some wide \<Longrightarrow>
       h \<noteq> INVALID_HANDLE_VALUE \<Longrightarrow> \<not> (got \<and> applied \<and> timed) \<Longrightarrow>
       bring_up conv port1 port2 delay on n p (i # is) cs
         (opened_events (if i = 0 then port1 else port2) wide h @
          configure_events h got applied timed @
          shutdown_events on n (if i = 0 then (h, snd p) else (fst p, h)))
         (if i = 0 then (h, snd p) else (fst p, h))
         False"

text \<open>Every configured port has a name that the decoder accepts.\<close>

definition port_names_convert :: "world \<Rightarrow> stimulator \<Rightarrow> bool" where
  "port_names_convert w st =
     list_all (\<lambda>name. from_bytes w name \<noteq> None)
       (take (m_num_ports st) [m_com_port_1 st, m_com_port_2 st])"

text \<open>The steps of bringing up that did not succeed.\<close>

fun failed :: "io_op \<times> reply \<Rightarrow> bool" where
  "failed (CreateFileW name, Opened h) = (h = INVALID_HANDLE_VALUE)"
| "failed (GetCommState h, Flag ok) = (\<not> ok)"
| "failed (SetCommState h, Flag ok) = (\<not> ok)"
| "failed (SetCommTimeouts h, Flag ok) = (\<not> ok)"
| "failed (Channel_setup_channel c h d, Flag ok) = (\<not> ok)"
| "failed _ = False"


text \<open>
  The calls that are steps of bringing up, and the histories that stop at their first
  failed step: before it no step failed, and after it there is no step at all, only
  logging and, at the end, the shutdown of \<open>disable\<close>.
\<close>

fun is_bring_up_step :: "io_op \<times> reply \<Rightarrow> bool" where
  "is_bring_up_step (CreateFileW name, r) = True"
| "is_bring_up_step (GetCommState h, r) = True"
| "is_bring_up_step (SetCommState h, r) = True"
| "is_bring_up_step (SetCommTimeouts h, r) = True"
| "is_bring_up_step (PurgeComm h f, r) = True"
| "is_bring_up_step (Channel_setup_channel c h d, r) = True"
| "is_bring_up_step _ = False"

definition stops_at_first_failure :: "bool \<Rightarrow> nat \<Rightarrow> history \<Rightarrow> bool" where
  "stops_at_first_failure on n evs =
     (\<exists>pre e post p.
        evs = pre @ e # post @ shutdown_events on n p \<and> failed e \<and>
        (\<forall>x \<in> set pre. \<not> failed x) \<and>
        (\<forall>x \<in> set (post @ shutdown_events on n p). \<not> is_bring_up_step x))"


section \<open>Example worlds and stimulators\<close>

definition bicep :: channel where
  "bicep = \<lparr>channel_name = ''bicep'', channel_num = 0, board_num = 0,
            max_amplitude = 100, max_pulse_width = 250\<rparr>"

definition tricep :: channel where
  "tricep = \<lparr>channel_name = ''tricep'', channel_num = 1, board_num = 0,
             max_amplitude = 100, max_pulse_width = 250\<rparr>"

definition forearm :: channel where
  "forearm = \<lparr>channel_name = ''forearm'', channel_num = 2, board_num = 0,
              max_amplitude = 100, max_pulse_width = 250\<rparr>"

definition wrist :: channel where
  "wrist = \<lparr>channel_name = ''wrist'', channel_num = 3, board_num = 0,
            max_amplitude = 100, max_pulse_width = 250\<rparr>"

text \<open>
  The decoder of the example worlds: a name of ASCII bytes decodes to the same characters,
  as it does under every UTF-8 decoder. The examples have no name with a multi-byte
  sequence, and this decoder decodes none: it throws at every byte above \<open>0x7F\<close>, as
  every decoder does at a byte that is not part of a well-formed sequence, \<open>0xFF\<close> say.
\<close>

definition ascii_from_bytes :: "string \<Rightarrow> wstring option" where
  "ascii_from_bytes s =
     (if list_all (\<lambda>c. (of_char c :: nat) < 128) s then Some (map of_char s) else None)"

definition demo_world :: world where
  "demo_world =
     \<lparr>answer = (\<lambda>h op. True),
      new_handle = (\<lambda>h name. 7),
      from_bytes = ascii_from_bytes,
      incoming = (\<lambda>h hd. \<lparr>is_valid = True, get_data = [3], get_message = [4, 128, 16, 0, 3]\<rparr>),
      all_incoming = (\<lambda>h hs n. []),
      get_events = (\<lambda>h j. if j = 0 then [bicep, tricep] else []),
      get_amp = (\<lambda>h j c. 0),
      get_pw = (\<lambda>h j c. 0)\<rparr>"

definition demo_stim :: "bool \<Rightarrow> stimulator" where
  "demo_stim on =
     \<lparr>m_name = ''UECU Board'', m_com_port_1 = ''COM5'', m_com_port_2 = ''NONE'',
      m_hComm_1 = 7, m_hComm_2 = 0, m_enabled = on, m_is_virtual = False,
      m_channels = [bicep, tricep], m_num_ports = 1, m_delay_time = 1, num_events = 2,
      amplitudes = [0, 0], pulsewidths = [0, 0], max_amplitudes = [100, 100],
      max_pulsewidths = [250, 250], channel_names = [''bicep'', ''tricep''], history = []\<rparr>"

definition frames_world :: "read_message list \<Rightarrow> world" where
  "frames_world ms = demo_world\<lparr>all_incoming := (\<lambda>h hs n. ms)\<rparr>"

definition good_frame :: read_message where
  "good_frame = \<lparr>is_valid = True, get_data = [1], get_message = [4, 128, 25, 0, 1]\<rparr>"

definition error_frame :: read_message where
  "error_frame = \<lparr>is_valid = False, get_data = [5], get_message = [4, 128, 5, 0, 5]\<rparr>"


text \<open>A world in which one call fails, and a stimulator with both ports configured.\<close>

definition failing_world :: "io_op \<Rightarrow> world" where
  "failing_world op = demo_world\<lparr>answer := (\<lambda>h op'. op' \<noteq> op)\<rparr>"

definition two_ports :: "stimulator \<Rightarrow> stimulator" where
  "two_ports st = st\<lparr>m_com_port_2 := ''COM6'', m_hComm_2 := 8, m_num_ports := 2\<rparr>"

text \<open>The four channels of the example program on one stimulator.\<close>

definition four_channels :: "stimulator \<Rightarrow> stimulator" where
  "four_channels st =
     st\<lparr>m_channels := [bicep, tricep, forearm, wrist], num_events := 4,
        amplitudes := [0, 0, 0, 0], pulsewidths := [0, 0, 0, 0],
        max_amplitudes := [100, 100, 100, 100], max_pulsewidths := [250, 250, 250, 250],
        channel_names := [''bicep'', ''tricep'', ''forearm'', ''wrist'']\<rparr>"

section \<open>Properties of the loops and of \<open>disable\<close>\<close>

lemma for_each_total:
  "(\<And>i s. i \<in> set is \<Longrightarrow> \<exists>s'. body i s = Inr s') \<Longrightarrow> \<exists>st'. for_each body is st = Inr st'"
proof (induction "is" arbitrary: st)
  case Nil
  then show ?case by simp
next
  case (Cons i "is")
  obtain s' where "body i st = Inr s'" using Cons.prems[of i st] by auto
  then show ?case using Cons.IH[of s'] Cons.prems by auto
qed

lemma close_stimulator_total:
  "m_num_ports st \<le> 2 \<Longrightarrow> \<exists>st'. close_stimulator st = Inr st'"
proof -
  assume np: "m_num_ports st \<le> 2"
  have "\<exists>st'. for_each (\<lambda>i s. case m_hComms i s of Inl e \<Rightarrow> Inl e
                     | Inr h \<Rightarrow> Inr (call_void (CloseHandle h) s)) [0..<m_num_ports st] st = Inr st'"
    by (rule for_each_total) (use np in \<open>auto simp: m_hComms_def\<close>)
  then show ?thesis by (auto simp: close_stimulator_def)
qed

lemma for_each_invariant:
  "for_each body is st = Inr st' \<Longrightarrow> P st \<Longrightarrow>
   (\<And>i s s'. i \<in> set is \<Longrightarrow> body i s = Inr s' \<Longrightarrow> P s \<Longrightarrow> P s') \<Longrightarrow> P st'"
proof (induction "is" arbitrary: st)
  case Nil
  then show ?case by simp
next
  case (Cons i "is")
  from Cons.prems(1) obtain s1 where b: "body i st = Inr s1" and r: "for_each body is s1 = Inr st'"
    by (auto split: sum.splits)
  have "P s1" using Cons.prems(3)[of i st s1] b Cons.prems(2) by simp
  then show ?case using Cons.IH[OF r] Cons.prems(3) by auto
qed

lemma disable_total:
  assumes "m_num_ports st \<le> 2"
  shows "\<exists>st'. disable st = Inr st'"
proof (cases "is_enabled st")
  case False
  then show ?thesis by (simp add: disable_def)
next
  case True
  have "\<exists>st1. for_each (\<lambda>i s. case m_schedulers i of Inl e \<Rightarrow> Inl e
                        | Inr j \<Rightarrow> Inr (call_void (Scheduler_disable j) s)) [0..<m_num_ports st] st = Inr st1"
    by (rule for_each_total) (use assms in \<open>auto simp: m_schedulers_def\<close>)
  then obtain st1 where l: "for_each (\<lambda>i s. case m_schedulers i of Inl e \<Rightarrow> Inl e
                        | Inr j \<Rightarrow> Inr (call_void (Scheduler_disable j) s)) [0..<m_num_ports st] st = Inr st1" ..
  have "m_num_ports st1 = m_num_ports st"
    by (rule for_each_invariant[OF l, where P = "\<lambda>s. m_num_ports s = m_num_ports st"])
       (auto simp: call_void_def record_call_def split: sum.splits)
  then obtain st2 where "close_stimulator st1 = Inr st2"
    using close_stimulator_total[of st1] assms by auto
  then show ?thesis using True l by (simp add: disable_def)
qed

lemma disable_not_enabled: "disable st = Inr st' \<Longrightarrow> \<not> m_enabled st'"
  by (auto simp: disable_def split: if_splits sum.splits)

lemma disable_when_disabled:
  "\<not> is_enabled st \<Longrightarrow>
   disable st = Inr (st\<lparr>history := history st @ [(LOG Info ''Stimulator has not been enabled yet.'', Done)]\<rparr>)"
  by (simp add: disable_def is_enabled_def call_void_def record_call_def)


lemma map_fst_poll: "map fst (poll w op is h) = map op is"
  by (induction "is" arbitrary: h) (simp_all add: Let_def)

lemma poll_replies: "e \<in> set (poll w op is h) \<Longrightarrow> \<exists>f. snd e = Flag f"
  by (induction "is" arbitrary: h) (auto simp: Let_def)

lemma m_schedulers_small: "i < 2 \<Longrightarrow> m_schedulers i = Inr i"
  by (simp add: m_schedulers_def)

lemma for_each_success_poll:
  "\<forall>i \<in> set is. i < 2 \<Longrightarrow>
   for_each_success
     (\<lambda>i s. case m_schedulers i of Inl e \<Rightarrow> Inl e | Inr j \<Rightarrow> Inr (call_bool w (op j) s))
     is acc st =
   Inr (acc \<and> (\<forall>e \<in> set (poll w op is (history st)). snd e = Flag True),
        st\<lparr>history := history st @ poll w op is (history st)\<rparr>)"
proof (induction "is" arbitrary: acc st)
  case Nil
  then show ?case by simp
next
  case (Cons i "is")
  then show ?case
    by (simp add: m_schedulers_small call_bool_def record_call_def Let_def)
qed


lemma for_each_void:
  "\<forall>i \<in> set is. \<forall>H. body i (st\<lparr>history := H\<rparr>) = Inr (st\<lparr>history := H @ [f i]\<rparr>) \<Longrightarrow>
   for_each body is (st\<lparr>history := H\<rparr>) = Inr (st\<lparr>history := H @ map f is\<rparr>)"
  by (induction "is" arbitrary: H) simp_all

lemma disable_eq:
  assumes "m_num_ports st \<le> 2"
  shows "disable st = Inr (st\<lparr>history := history st @ disable_events st, m_enabled := False\<rparr>)"
proof (cases "m_enabled st")
  case False
  then show ?thesis
    by (simp add: disable_def is_enabled_def call_void_def record_call_def disable_events_def shutdown_events_def)
next
  case True
  let ?n = "m_num_ports st"
  let ?ds = "map (\<lambda>i. (Scheduler_disable i, Done)) [0..<?n]"
  let ?cs = "map (\<lambda>i. (CloseHandle (if i = 0 then m_hComm_1 st else m_hComm_2 st), Done)) [0..<?n]"
  have small: "\<forall>i \<in> set [0..<?n]. i < 2" using assms by auto
  have "for_each (\<lambda>i s. case m_schedulers i of Inl e \<Rightarrow> Inl e
                        | Inr j \<Rightarrow> Inr (call_void (Scheduler_disable j) s))
          [0..<?n] (st\<lparr>history := history st\<rparr>) = Inr (st\<lparr>history := history st @ ?ds\<rparr>)"
    by (rule for_each_void)
       (use small in \<open>simp add: m_schedulers_small call_void_def record_call_def\<close>)
  then have l1: "for_each (\<lambda>i s. case m_schedulers i of Inl e \<Rightarrow> Inl e
                        | Inr j \<Rightarrow> Inr (call_void (Scheduler_disable j) s))
          [0..<?n] st = Inr (st\<lparr>history := history st @ ?ds\<rparr>)"
    by simp
  have l2: "for_each (\<lambda>i s. case m_hComms i s of Inl e \<Rightarrow> Inl e
                     | Inr h \<Rightarrow> Inr (call_void (CloseHandle h) s))
          [0..<?n] (st\<lparr>history := history st @ ?ds\<rparr>) =
        Inr (st\<lparr>history := (history st @ ?ds) @ ?cs\<rparr>)"
    by (rule for_each_void)
       (use small in \<open>auto simp: m_hComms_def call_void_def record_call_def\<close>)
  show ?thesis
    using True
    by (simp add: disable_def is_enabled_def l1 close_stimulator_def l2 call_void_def
        record_call_def disable_events_def shutdown_events_def)
qed

lemma disable_events_history [simp]: "disable_events (s\<lparr>history := H\<rparr>) = disable_events s"
  by (simp add: disable_events_def shutdown_events_def)

lemma check_messages_eq:
  "check_messages ms success st =
     (success \<and> (\<forall>m \<in> set ms. is_valid m), st\<lparr>history := history st @ complaints ms\<rparr>)"
  by (induction ms arbitrary: success st) (simp_all add: call_void_def record_call_def)

lemma snapshot_event_keeps:
  "snapshot_event w j c st = Inr st' \<Longrightarrow>
   history st' = history st \<and> m_num_ports st' = m_num_ports st \<and> m_enabled st' = m_enabled st \<and>
   m_hComm_1 st' = m_hComm_1 st \<and> m_hComm_2 st' = m_hComm_2 st"
  by (auto simp: snapshot_event_def split: sum.splits)

lemma snapshot_events_keeps:
  "snapshot_events w j cs st = Inr st' \<Longrightarrow>
   history st' = history st \<and> m_num_ports st' = m_num_ports st \<and> m_enabled st' = m_enabled st \<and>
   m_hComm_1 st' = m_hComm_1 st \<and> m_hComm_2 st' = m_hComm_2 st"
proof (induction cs arbitrary: st)
  case Nil
  then show ?case by simp
next
  case (Cons c cs)
  then obtain s1 where a: "snapshot_event w j c st = Inr s1"
    and b: "snapshot_events w j cs s1 = Inr st'"
    by (auto split: sum.splits)
  show ?case using snapshot_event_keeps[OF a] Cons.IH[OF b] by simp
qed

lemma update_snapshot_keeps:
  assumes "update_snapshot w st = Inr st'"
  shows "history st' = history st \<and> m_num_ports st' = m_num_ports st \<and>
         m_enabled st' = m_enabled st \<and>
         m_hComm_1 st' = m_hComm_1 st \<and> m_hComm_2 st' = m_hComm_2 st"
  by (rule for_each_invariant[OF assms[unfolded update_snapshot_def]])
     (auto split: sum.splits dest: snapshot_events_keeps)

lemma update_enabled:
  assumes en: "is_enabled st" and np: "m_num_ports st \<le> 2"
    and snap: "update_snapshot w st = Inr st1"
  defines "n \<equiv> m_num_ports st"
  defines "evs \<equiv> poll w Scheduler_update [0..<n] (history st)"
  defines "hs \<equiv> [m_hComm_1 st, m_hComm_2 st]"
  defines "ms \<equiv> all_incoming w (history st @ evs) hs n"
  defines "b \<equiv> (\<forall>e \<in> set evs. snd e = Flag True) \<and> (\<forall>m \<in> set ms. is_valid m)"
  defines "body \<equiv> evs @ (Get_all_messages hs n, Frames ms) # complaints ms"
  shows "update w st =
           Inr (b, if b then st1\<lparr>history := history st @ body\<rparr>
                   else st1\<lparr>history := history st @ body @ disable_events st1,
                            m_enabled := False\<rparr>)"
proof -
  note k = update_snapshot_keeps[OF snap]
  have small: "\<forall>i \<in> set [0..<m_num_ports st]. i < 2" using np by auto
  have loop: "for_each_success
                (\<lambda>i s. case m_schedulers i of Inl e \<Rightarrow> Inl e
                        | Inr j \<Rightarrow> Inr (call_bool w (Scheduler_update j) s))
                [0..<m_num_ports st] True st1 =
              Inr (\<forall>e \<in> set evs. snd e = Flag True, st1\<lparr>history := history st @ evs\<rparr>)"
    using k by (simp add: for_each_success_poll[OF small] evs_def n_def)
  let ?st4 = "st1\<lparr>history := history st @ body\<rparr>"
  have d: "disable ?st4 =
             Inr (st1\<lparr>history := history st @ body @ disable_events st1, m_enabled := False\<rparr>)"
    using disable_eq[of ?st4] np k by simp
  have checked: "check_messages ms (\<forall>e \<in> set evs. snd e = Flag True)
                   (record_call (Get_all_messages hs n) (Frames ms)
                      (st1\<lparr>history := history st @ evs\<rparr>)) = (b, ?st4)"
    by (simp add: check_messages_eq record_call_def b_def body_def)
  have "update w st =
          (if \<not> b then (case disable ?st4 of Inl e \<Rightarrow> Inl e | Inr st5 \<Rightarrow> Inr (b, st5))
           else Inr (b, ?st4))"
    using en k checked
    by (simp add: update_def snap loop Let_def hs_def ms_def n_def)
  then show ?thesis
    by (simp add: d)
qed


lemma new_events_append: "history st' = history st @ xs \<Longrightarrow> new_events st st' = xs"
  by (simp add: new_events_def)

lemma poll_updates_only:
  "filter is_scheduler_update (map fst (poll w Scheduler_update is h)) = map Scheduler_update is"
  by (induction "is" arbitrary: h) (simp_all add: Let_def)

lemma complaints_no_update: "filter is_scheduler_update (map fst (complaints ms)) = []"
  by (induction ms) simp_all

lemma disable_events_no_update: "filter is_scheduler_update (map fst (disable_events s)) = []"
  by (auto simp: disable_events_def shutdown_events_def filter_empty_conv)

lemma complaints_done: "e \<in> set (complaints ms) \<Longrightarrow> snd e = Done"
  by (induction ms) (auto split: if_splits)

lemma disable_events_done: "e \<in> set (disable_events s) \<Longrightarrow> snd e = Done"
  by (auto simp: disable_events_def shutdown_events_def split: if_splits)

lemma complaints_not_update: "e \<in> set (complaints ms) \<Longrightarrow> fst e \<noteq> Scheduler_update i"
  by (induction ms) (auto split: if_splits)

lemma disable_events_not_update: "e \<in> set (disable_events s) \<Longrightarrow> fst e \<noteq> Scheduler_update i"
  by (auto simp: disable_events_def shutdown_events_def split: if_splits)




text \<open>Histories that are answered by the environment.\<close>

lemma answered_by_append:
  "answered_by w H (xs @ ys) \<longleftrightarrow> answered_by w H xs \<and> answered_by w (H @ xs) ys"
  by (induction xs arbitrary: H) auto

lemma answered_by_poll:
  "\<forall>i H'. reply_of w H' (op i) = Flag (answer w H' (op i)) \<Longrightarrow>
   answered_by w H (poll w op is H)"
  by (induction "is" arbitrary: H) (simp_all add: Let_def)

lemma answered_by_void:
  "\<forall>e \<in> set es. \<forall>H'. reply_of w H' (fst e) = Done \<and> snd e = Done \<Longrightarrow> answered_by w H es"
  by (induction es arbitrary: H) simp_all

lemma answered_by_complaints: "answered_by w H (complaints ms)"
  by (induction ms arbitrary: H) simp_all

lemma answered_by_shutdown: "answered_by w H (shutdown_events on n p)"
  by (rule answered_by_void) (auto simp: shutdown_events_def)

lemma answered_by_disable_events: "answered_by w H (disable_events st)"
  by (simp add: disable_events_def answered_by_shutdown)

lemma add_events_loop_shape:
  assumes "is_enabled st" and "\<forall>c \<in> set chans. board_num c < 2"
  shows "\<exists>b k evs.
           add_events_loop w chans event_type st = Inr (b, st\<lparr>history := history st @ evs\<rparr>) \<and>
           answered_by w (history st) evs \<and>
           k \<le> length chans \<and>
           map fst evs =
             map (\<lambda>c. Scheduler_add_event (board_num c) c (m_delay_time st) event_type)
               (take k chans) \<and>
           (b \<longrightarrow> k = length chans \<and> (\<forall>e \<in> set evs. snd e = Flag True)) \<and>
           (\<not> b \<longrightarrow> evs \<noteq> [] \<and> snd (last evs) = Flag False \<and>
                   (\<forall>e \<in> set (butlast evs). snd e = Flag True))"
  using assms
proof (induction chans arbitrary: st)
  case Nil
  have "add_events_loop w [] event_type st = Inr (True, st\<lparr>history := history st @ []\<rparr>)"
    by simp
  then show ?case by (intro exI[of _ True] exI[of _ 0] exI[of _ "[]"]) simp
next
  case (Cons c cs)
  let ?op = "Scheduler_add_event (board_num c) c (m_delay_time st) event_type"
  let ?ok = "answer w (history st) ?op"
  let ?e = "(?op, Flag ?ok)"
  let ?st1 = "st\<lparr>history := history st @ [?e]\<rparr>"
  have c: "board_num c < 2" using Cons.prems by simp
  have ae: "add_event w c event_type st = Inr (?ok, ?st1)"
    using Cons.prems(1) c
    by (simp add: add_event_def m_schedulers_small call_bool_def record_call_def Let_def)
  show ?case
  proof (cases ?ok)
    case False
    have "add_events_loop w (c # cs) event_type st = Inr (False, st\<lparr>history := history st @ [?e]\<rparr>)"
      using ae False by simp
    then show ?thesis
      using False by (intro exI[of _ False] exI[of _ 1] exI[of _ "[?e]"]) simp
  next
    case True
    have en1: "is_enabled ?st1" using Cons.prems(1) by (simp add: is_enabled_def)
    have rest: "\<forall>c \<in> set cs. board_num c < 2" using Cons.prems(2) by simp
    from Cons.IH[OF en1 rest] obtain b k evs where
      r: "add_events_loop w cs event_type ?st1 = Inr (b, ?st1\<lparr>history := history ?st1 @ evs\<rparr>)"
      and a: "answered_by w (history ?st1) evs"
      and k: "k \<le> length cs"
      and m: "map fst evs =
             map (\<lambda>c. Scheduler_add_event (board_num c) c (m_delay_time ?st1) event_type)
               (take k cs)"
      and t: "b \<longrightarrow> k = length cs \<and> (\<forall>e \<in> set evs. snd e = Flag True)"
      and f: "\<not> b \<longrightarrow> evs \<noteq> [] \<and> snd (last evs) = Flag False \<and>
                   (\<forall>e \<in> set (butlast evs). snd e = Flag True)"
      by blast
    have "add_events_loop w (c # cs) event_type st =
            Inr (b, st\<lparr>history := history st @ (?e # evs)\<rparr>)"
      using ae True r by simp
    moreover have "answered_by w (history st) (?e # evs)" using a by simp
    moreover have "Suc k \<le> length (c # cs)" using k by simp
    moreover have "map fst (?e # evs) =
             map (\<lambda>c. Scheduler_add_event (board_num c) c (m_delay_time st) event_type)
               (take (Suc k) (c # cs))"
      using m by simp
    moreover have "b \<longrightarrow> Suc k = length (c # cs) \<and> (\<forall>e \<in> set (?e # evs). snd e = Flag True)"
      using t True by simp
    moreover have "\<not> b \<longrightarrow> ?e # evs \<noteq> [] \<and> snd (last (?e # evs)) = Flag False \<and>
                   (\<forall>e \<in> set (butlast (?e # evs)). snd e = Flag True)"
      using f True by auto
    ultimately show ?thesis by blast
  qed
qed


lemma for_each_append:
  "for_each body (xs @ ys) st =
     (case for_each body xs st of Inl e \<Rightarrow> Inl e | Inr s \<Rightarrow> for_each body ys s)"
  by (induction xs arbitrary: st) (simp_all split: sum.splits)

lemma set_amp_eq:
  "is_enabled st \<longrightarrow> board_num c < 2 \<Longrightarrow>
   set_amp c amp (st\<lparr>history := H\<rparr>) = Inr (st\<lparr>history := H @ [set_amp_event st c amp]\<rparr>)"
  by (simp add: set_amp_def set_amp_event_def is_enabled_def m_schedulers_small call_void_def
      record_call_def)

lemma write_pw_eq:
  "is_enabled st \<longrightarrow> board_num c < 2 \<Longrightarrow>
   write_pw c pw (st\<lparr>history := H\<rparr>) = Inr (st\<lparr>history := H @ [write_pw_event st c pw]\<rparr>)"
  by (simp add: write_pw_def write_pw_event_def is_enabled_def m_schedulers_small call_void_def
      record_call_def)

lemma set_amps_upto:
  assumes b: "is_enabled st \<longrightarrow> (\<forall>c \<in> set chans. board_num c < 2)"
    and n: "n \<le> length chans" "n \<le> length amps"
  shows "for_each
           (\<lambda>i s. if i < length amps then set_amp (chans ! i) (amps ! i) s
                   else Inl (IndexOutOfRange ''amplitudes_'' i))
           [0..<n] st =
         Inr (st\<lparr>history := history st @
                  map (\<lambda>i. set_amp_event st (chans ! i) (amps ! i)) [0..<n]\<rparr>)"
proof -
  have "for_each
           (\<lambda>i s. if i < length amps then set_amp (chans ! i) (amps ! i) s
                   else Inl (IndexOutOfRange ''amplitudes_'' i))
           [0..<n] (st\<lparr>history := history st\<rparr>) =
         Inr (st\<lparr>history := history st @
                  map (\<lambda>i. set_amp_event st (chans ! i) (amps ! i)) [0..<n]\<rparr>)"
    by (rule for_each_void) (use b n in \<open>auto intro!: set_amp_eq\<close>)
  then show ?thesis by simp
qed

lemma write_pws_upto:
  assumes b: "is_enabled st \<longrightarrow> (\<forall>c \<in> set chans. board_num c < 2)"
    and n: "n \<le> length chans" "n \<le> length pws"
  shows "for_each
           (\<lambda>i s. if i < length pws then write_pw (chans ! i) (pws ! i) s
                   else Inl (IndexOutOfRange ''pulsewidths_'' i))
           [0..<n] st =
         Inr (st\<lparr>history := history st @
                  map (\<lambda>i. write_pw_event st (chans ! i) (pws ! i)) [0..<n]\<rparr>)"
proof -
  have "for_each
           (\<lambda>i s. if i < length pws then write_pw (chans ! i) (pws ! i) s
                   else Inl (IndexOutOfRange ''pulsewidths_'' i))
           [0..<n] (st\<lparr>history := history st\<rparr>) =
         Inr (st\<lparr>history := history st @
                  map (\<lambda>i. write_pw_event st (chans ! i) (pws ! i)) [0..<n]\<rparr>)"
    by (rule for_each_void) (use b n in \<open>auto intro!: write_pw_eq\<close>)
  then show ?thesis by simp
qed

lemma upt_split: "n < m \<Longrightarrow> [0..<m] = [0..<n] @ n # [Suc n..<m]"
  by (metis le_add2 le_add_same_cancel2 less_imp_le_nat upt_add_eq_append upt_conv_Cons
      le_add_diff_inverse plus_nat.add_0)


lemma m_hComms_small: "i < 2 \<Longrightarrow> m_hComms i st = Inr (if i = 0 then m_hComm_1 st else m_hComm_2 st)"
  by (auto simp: m_hComms_def)

lemma create_schedulers_trace:
  assumes "\<forall>i \<in> set is. i < 2"
    and payload: "acknowledges_with_payload w"
    and "m_enabled st" and "m_num_ports st \<le> 2"
  shows "\<exists>r evs.
           create_schedulers w sync_msg duration is st =
             Inr (r, if r = None then st\<lparr>history := history st @ evs\<rparr>
                     else st\<lparr>history := history st @ evs, m_enabled := False\<rparr>) \<and>
           (r = None \<or> r = Some False) \<and>
           answered_by w (history st) evs \<and>
           handshake_trace (m_is_virtual st) sync_msg duration (m_delay_time st)
             (m_hComm_1 st) (m_hComm_2 st) (disable_events st) is evs (r = None)"
  using assms(1,3,4)
proof (induction "is" arbitrary: st)
  case Nil
  have "create_schedulers w sync_msg duration [] st = Inr (None, st\<lparr>history := history st @ []\<rparr>)"
    by simp
  then show ?case
    by (intro exI[of _ None] exI[of _ "[]"]) (simp add: handshake_trace.finished)
next
  case (Cons i "is")
  let ?h = "if i = 0 then m_hComm_1 st else m_hComm_2 st"
  let ?op = "Scheduler_create_scheduler i ?h sync_msg duration (m_delay_time st)"
  let ?c = "(?op, Flag (answer w (history st) ?op))"
  let ?st1 = "st\<lparr>history := history st @ [?c]\<rparr>"
  let ?m = "incoming w (history ?st1) ?h"
  let ?r = "(Read_message ?h True, Frame ?m)"
  have i: "i < 2" and rest: "\<forall>k \<in> set is. k < 2" using Cons.prems(1) by simp_all
  show ?case
  proof (cases "m_is_virtual st")
    case True
    have en1: "m_enabled ?st1" and np1: "m_num_ports ?st1 \<le> 2"
      using Cons.prems by simp_all
    from Cons.IH[OF rest en1 np1] obtain r evs where
      run: "create_schedulers w sync_msg duration is ?st1 =
             Inr (r, if r = None then ?st1\<lparr>history := history ?st1 @ evs\<rparr>
                     else ?st1\<lparr>history := history ?st1 @ evs, m_enabled := False\<rparr>)"
      and r: "r = None \<or> r = Some False"
      and ans: "answered_by w (history ?st1) evs"
      and tr: "handshake_trace (m_is_virtual ?st1) sync_msg duration (m_delay_time ?st1)
             (m_hComm_1 ?st1) (m_hComm_2 ?st1) (disable_events ?st1) is evs (r = None)"
      by blast
    have "create_schedulers w sync_msg duration (i # is) st =
             Inr (r, if r = None then st\<lparr>history := history st @ (?c # evs)\<rparr>
                     else st\<lparr>history := history st @ (?c # evs), m_enabled := False\<rparr>)"
      using i True run
      by (simp add: m_schedulers_small m_hComms_small call_bool_def record_call_def Let_def)
    moreover have "handshake_trace (m_is_virtual st) sync_msg duration (m_delay_time st)
             (m_hComm_1 st) (m_hComm_2 st) (disable_events st) (i # is) (?c # evs) (r = None)"
    proof (rule handshake_trace.unanswered[OF True])
      show "handshake_trace (m_is_virtual st) sync_msg duration (m_delay_time st)
             (m_hComm_1 st) (m_hComm_2 st) (disable_events st) is evs (r = None)"
        using tr by simp
    qed
    moreover have "answered_by w (history st) (?c # evs)"
      using ans by simp
    ultimately show ?thesis using r by blast
  next
    case False
    show ?thesis
    proof (cases "is_valid ?m")
      case valid: True
      then obtain b bs where data: "get_data ?m = b # bs"
        using payload by (cases "get_data ?m") (auto simp: acknowledges_with_payload_def)
      let ?st2 = "st\<lparr>history := history st @ [?c, ?r, (Scheduler_set_id i b, Done)]\<rparr>"
      have en2: "m_enabled ?st2" and np2: "m_num_ports ?st2 \<le> 2"
        using Cons.prems by simp_all
      from Cons.IH[OF rest en2 np2] obtain r evs where
        run: "create_schedulers w sync_msg duration is ?st2 =
             Inr (r, if r = None then ?st2\<lparr>history := history ?st2 @ evs\<rparr>
                     else ?st2\<lparr>history := history ?st2 @ evs, m_enabled := False\<rparr>)"
        and r: "r = None \<or> r = Some False"
        and ans: "answered_by w (history ?st2) evs"
        and tr: "handshake_trace (m_is_virtual ?st2) sync_msg duration (m_delay_time ?st2)
             (m_hComm_1 ?st2) (m_hComm_2 ?st2) (disable_events ?st2) is evs (r = None)"
        by blast
      let ?evs = "?c # ?r # (Scheduler_set_id i b, Done) # evs"
      have "create_schedulers w sync_msg duration (i # is) st =
             Inr (r, if r = None then st\<lparr>history := history st @ ?evs\<rparr>
                     else st\<lparr>history := history st @ ?evs, m_enabled := False\<rparr>)"
        using i False valid data run
        by (simp add: m_schedulers_small m_hComms_small call_bool_def record_call_def Let_def
            call_void_def)
      moreover have "handshake_trace (m_is_virtual st) sync_msg duration (m_delay_time st)
             (m_hComm_1 st) (m_hComm_2 st) (disable_events st) (i # is) ?evs (r = None)"
      proof (rule handshake_trace.acknowledged[OF False valid data])
        show "handshake_trace (m_is_virtual st) sync_msg duration (m_delay_time st)
             (m_hComm_1 st) (m_hComm_2 st) (disable_events st) is evs (r = None)"
          using tr by simp
      qed
      moreover have "answered_by w (history st) ?evs"
        using ans by simp
      ultimately show ?thesis using r by blast
    next
      case invalid: False
      let ?tail = "[?c, ?r,
          (LOG Error
             ''Scheduler created return message (below) was either invalid or an error. Disabling stimulator.'',
           Done),
          (Print_message (get_message ?m), Done)]"
      let ?st3 = "st\<lparr>history := history st @ ?tail\<rparr>"
      have d: "disable ?st3 =
                 Inr (?st3\<lparr>history := history ?st3 @ disable_events ?st3, m_enabled := False\<rparr>)"
        by (rule disable_eq) (use Cons.prems in simp)
      have "create_schedulers w sync_msg duration (i # is) st =
             Inr (Some False,
                  st\<lparr>history := history st @ (?tail @ disable_events st), m_enabled := False\<rparr>)"
        using i False invalid d
        by (simp add: m_schedulers_small m_hComms_small call_bool_def record_call_def Let_def
            call_void_def)
      moreover have "handshake_trace (m_is_virtual st) sync_msg duration (m_delay_time st)
             (m_hComm_1 st) (m_hComm_2 st) (disable_events st) (i # is)
             (?tail @ disable_events st) False"
        using handshake_trace.refused[OF False invalid] by simp
      moreover have "answered_by w (history st) (?tail @ disable_events st)"
        by (simp add: answered_by_disable_events)
      ultimately show ?thesis by (intro exI[of _ "Some False"] exI[of _ "?tail @ disable_events st"]) simp
    qed
  qed
qed


text \<open>
  The rounding of the double-precision arithmetic. \<open>round_to_double n d s\<close> is a
  53-bit significand \<open>q\<close> and an exponent \<open>t \<ge> -1074\<close> with \<open>q * 2 ^ t\<close> within half a
  unit in the last place of \<open>(n / d) * 2 ^ s\<close>, normalised unless \<open>t\<close> is the least
  exponent; a tie goes to the even significand by \<open>round_half_even\<close>.
\<close>

lemma bit_length_nonneg: "0 \<le> bit_length n"
proof (induction n rule: bit_length.induct)
  case (1 n)
  then show ?case by (subst bit_length.simps) simp
qed

lemma bit_length_pos: "0 < n \<Longrightarrow> 1 \<le> bit_length n"
  using bit_length_nonneg[of "n div 2"] by (subst bit_length.simps) simp

lemma bit_length_bounds:
  "0 < n \<Longrightarrow> 2 ^ nat (bit_length n - 1) \<le> n \<and> n < 2 ^ nat (bit_length n)"
proof (induction n rule: bit_length.induct)
  case (1 n)
  have bl: "bit_length n = 1 + bit_length (n div 2)"
    using "1.prems" by (subst bit_length.simps) simp
  show ?case
  proof (cases "n = 1")
    case True
    have "bit_length (0::int) = 0" by (subst bit_length.simps) simp
    then show ?thesis using bl True by simp
  next
    case False
    then have half: "0 < n div 2" using "1.prems" by simp
    have b1: "1 \<le> bit_length (n div 2)" using half by (rule bit_length_pos)
    from "1.IH" half "1.prems"
    have ih: "2 ^ nat (bit_length (n div 2) - 1) \<le> n div 2 \<and> n div 2 < 2 ^ nat (bit_length (n div 2))"
      by simp
    have e1: "nat (bit_length n - 1) = Suc (nat (bit_length (n div 2) - 1))"
      using bl b1 by simp
    have e2: "nat (bit_length n) = Suc (nat (bit_length (n div 2)))"
      using bl b1 by simp
    have "2 * (n div 2) \<le> n" and "n < 2 * (n div 2 + 1)" by simp_all
    then show ?thesis
      unfolding e1 e2 using ih by simp
  qed
qed

lemma round_half_even_int:
  assumes "0 < d"
  shows "\<bar>2 * (round_half_even n d * d - n)\<bar> \<le> d"
proof -
  let ?q = "n div d" and ?r = "n mod d"
  have n: "?q * d = n - ?r" by (simp add: minus_mod_eq_div_mult)
  have r: "0 \<le> ?r" "?r < d" using assms by simp_all
  consider "2 * ?r < d" | "d < 2 * ?r" | "2 * ?r = d" by linarith
  then show ?thesis
  proof cases
    case 1
    then have "round_half_even n d = ?q" by (simp add: round_half_even_def Let_def)
    then show ?thesis using n r 1 by simp
  next
    case 2
    then have "round_half_even n d = ?q + 1" by (simp add: round_half_even_def Let_def)
    moreover have "(?q + 1) * d - n = d - ?r" by (simp add: distrib_right n)
    ultimately show ?thesis using r 2 by simp
  next
    case 3
    then have "round_half_even n d = ?q \<or> round_half_even n d = ?q + 1"
      by (simp add: round_half_even_def Let_def)
    moreover have "(?q + 1) * d - n = d - ?r" by (simp add: distrib_right n)
    moreover have "?q * d - n = - ?r" by (simp add: n)
    ultimately show ?thesis using r 3 by auto
  qed
qed

lemma round_half_even_nearest:
  assumes "0 < d"
  shows "\<bar>rat_of_int (round_half_even n d) - of_int n / of_int d\<bar> \<le> 1 / 2"
proof -
  let ?q = "round_half_even n d"
  have d: "(0::rat) < of_int d" using assms by simp
  have "rat_of_int ?q - of_int n / of_int d = of_int (2 * (?q * d - n)) / (2 * of_int d)"
    using d by (simp add: field_simps)
  then have "\<bar>rat_of_int ?q - of_int n / of_int d\<bar> =
             of_int \<bar>2 * (?q * d - n)\<bar> / (2 * of_int d)"
    using d by (simp add: abs_mult)
  also have "\<dots> \<le> of_int d / (2 * of_int d)"
  proof (rule divide_right_mono)
    show "rat_of_int \<bar>2 * (?q * d - n)\<bar> \<le> of_int d"
      using round_half_even_int[OF assms, of n] by (simp only: of_int_le_iff)
    show "0 \<le> 2 * rat_of_int d" using d by simp
  qed
  also have "\<dots> = 1 / 2" using d by simp
  finally show ?thesis .
qed

lemma scale_pos: "0 < d \<Longrightarrow> 0 < scale d k"
  by (simp add: scale_def)

lemma scale_ratio:
  assumes "0 < d"
  shows "rat_of_int (scale n u) / of_int (scale d (- u)) = of_int n / of_int d * 2 powi u"
proof (cases "0 \<le> u")
  case True
  then have "scale d (- u) = d" by (cases "u = 0") (simp_all add: scale_def)
  moreover have "scale n u = n * 2 ^ nat u" using True by (simp add: scale_def)
  moreover have "(2::rat) powi u = 2 ^ nat u" using True by (simp add: power_int_def)
  ultimately show ?thesis by simp
next
  case False
  then have "scale d (- u) = d * 2 ^ nat (- u)" and "scale n u = n"
    by (simp_all add: scale_def)
  moreover have "(2::rat) powi u = 1 / 2 ^ nat (- u)"
    using False by (simp add: power_int_def power_one_over)
  ultimately show ?thesis by simp
qed

lemma powi_nat: "0 \<le> k \<Longrightarrow> (2::rat) powi k = 2 ^ nat k"
  by (simp add: power_int_def)

lemma ilog2_ratio_bounds:
  assumes "0 < n" and "0 < d"
  shows "2 powi ilog2_ratio n d \<le> rat_of_int n / of_int d \<and>
         rat_of_int n / of_int d < 2 powi (ilog2_ratio n d + 1)"
proof -
  let ?a = "bit_length n" and ?b = "bit_length d"
  let ?k = "?a - ?b"
  let ?x = "rat_of_int n / of_int d"
  have a: "1 \<le> ?a" and b: "1 \<le> ?b" using assms by (simp_all add: bit_length_pos)
  have dpos: "(0::rat) < of_int d" and npos: "(0::rat) < of_int n" using assms by simp_all
  have n_lo: "(2::rat) powi (?a - 1) \<le> of_int n"
  proof -
    have "rat_of_int (2 ^ nat (?a - 1)) \<le> of_int n"
      using bit_length_bounds[OF assms(1)] by (simp only: of_int_le_iff)
    then show ?thesis using a by (simp add: powi_nat)
  qed
  have n_hi: "rat_of_int n < 2 powi ?a"
  proof -
    have "rat_of_int n < of_int (2 ^ nat ?a)"
      using bit_length_bounds[OF assms(1)] by (simp only: of_int_less_iff)
    then show ?thesis using a by (simp add: powi_nat)
  qed
  have d_lo: "(2::rat) powi (?b - 1) \<le> of_int d"
  proof -
    have "rat_of_int (2 ^ nat (?b - 1)) \<le> of_int d"
      using bit_length_bounds[OF assms(2)] by (simp only: of_int_le_iff)
    then show ?thesis using b by (simp add: powi_nat)
  qed
  have d_hi: "rat_of_int d < 2 powi ?b"
  proof -
    have "rat_of_int d < of_int (2 ^ nat ?b)"
      using bit_length_bounds[OF assms(2)] by (simp only: of_int_less_iff)
    then show ?thesis using b by (simp add: powi_nat)
  qed
  have lower: "2 powi (?k - 1) \<le> ?x"
  proof -
    have "2 powi (?k - 1) = (2::rat) powi (?a - 1) / 2 powi ?b"
      by (simp add: power_int_diff)
    also have "\<dots> \<le> of_int n / 2 powi ?b"
      using n_lo by (intro divide_right_mono) simp_all
    also have "\<dots> \<le> ?x"
      using d_hi dpos npos by (intro divide_left_mono) simp_all
    finally show ?thesis .
  qed
  have upper: "?x < 2 powi (?k + 1)"
  proof -
    have "?x \<le> of_int n / 2 powi (?b - 1)"
      using d_lo npos dpos
      by (intro divide_left_mono) (simp_all add: zero_less_power_int zero_less_mult_iff)
    also have "\<dots> < 2 powi ?a / 2 powi (?b - 1)"
      using n_hi by (intro divide_strict_right_mono) (simp_all add: zero_less_power_int)
    also have "\<dots> = 2 powi (?k + 1)"
      by (simp add: power_int_diff[symmetric] algebra_simps)
    finally show ?thesis .
  qed
  have test: "scale d ?k \<le> scale n (- ?k) \<longleftrightarrow> 2 powi ?k \<le> ?x"
  proof -
    have sp: "(0::rat) < of_int (scale d ?k)" using scale_pos[OF assms(2)] by simp
    have "scale d ?k \<le> scale n (- ?k) \<longleftrightarrow>
            1 \<le> rat_of_int (scale n (- ?k)) / of_int (scale d (- (- ?k)))"
      using sp by (simp add: field_simps)
    also have "\<dots> \<longleftrightarrow> 1 \<le> ?x * 2 powi (- ?k)"
      by (simp only: scale_ratio[OF assms(2)])
    also have "\<dots> \<longleftrightarrow> 2 powi ?k \<le> ?x"
    proof -
      have c: "(0::rat) < 2 powi ?k" by (simp add: zero_less_power_int)
      have m: "(2::rat) powi (- ?k) = inverse (2 powi ?k)"
        by (rule power_int_minus)
      have "?x * 2 powi (- ?k) = ?x / 2 powi ?k"
        unfolding m by (simp only: divide_inverse)
      then show ?thesis using c by (simp only: pos_le_divide_eq mult_1)
    qed
    finally show ?thesis .
  qed
  show ?thesis
  proof (cases "scale d ?k \<le> scale n (- ?k)")
    case True
    then have "ilog2_ratio n d = ?k" by (simp add: ilog2_ratio_def Let_def)
    then show ?thesis using True test upper by simp
  next
    case False
    then have "ilog2_ratio n d = ?k - 1" by (simp add: ilog2_ratio_def Let_def)
    then show ?thesis using False test lower by simp
  qed
qed

lemma round_to_double_nearest:
  fixes n d s :: int
  assumes "0 < n" and "0 < d"
  defines "x \<equiv> rat_of_int n / of_int d * 2 powi s"
  shows "case round_to_double n d s of
           (q, t) \<Rightarrow>
             \<bar>of_int q * 2 powi t - x\<bar> \<le> 2 powi t / 2 \<and> - 1074 \<le> t \<and>
             0 \<le> q \<and> q \<le> 2 ^ 53 \<and> (t = - 1074 \<or> 2 ^ 52 \<le> q)"
proof -
  let ?k = "ilog2_ratio n d"
  let ?e = "max (?k + s) (- 1022)"
  let ?t = "?e - 52"
  let ?u = "s - ?t"
  let ?N = "scale n ?u" and ?D = "scale d (- ?u)"
  let ?q = "round_half_even ?N ?D"
  let ?y = "rat_of_int n / of_int d * 2 powi ?u"
  have rd: "round_to_double n d s = (?q, ?t)"
    by (simp add: round_to_double_def Let_def)
  have Dpos: "0 < ?D" using assms(2) by (rule scale_pos)
  have ratio: "rat_of_int ?N / of_int ?D = ?y"
    using assms(2) by (rule scale_ratio)
  have near: "\<bar>rat_of_int ?q - ?y\<bar> \<le> 1 / 2"
    using round_half_even_nearest[OF Dpos, of ?N] by (simp only: ratio)
  have tpos: "(0::rat) < 2 powi ?t" by (simp add: zero_less_power_int)
  have split: "(2::rat) powi s = 2 powi ?u * 2 powi ?t"
  proof -
    have "(2::rat) powi (?u + ?t) = 2 powi ?u * 2 powi ?t"
      by (rule power_int_add) simp
    moreover have "?u + ?t = s" by simp
    ultimately show ?thesis by (simp only:)
  qed
  have xy: "x = ?y * 2 powi ?t"
    unfolding x_def split by (simp only: mult.assoc)
  have c1: "\<bar>of_int ?q * 2 powi ?t - x\<bar> \<le> 2 powi ?t / 2"
  proof -
    have "of_int ?q * 2 powi ?t - x = (of_int ?q - ?y) * 2 powi ?t"
      unfolding xy by (simp only: left_diff_distrib)
    then have "\<bar>of_int ?q * 2 powi ?t - x\<bar> = \<bar>rat_of_int ?q - ?y\<bar> * 2 powi ?t"
      using tpos by (simp only: abs_mult abs_of_pos)
    also have "\<dots> \<le> 1 / 2 * 2 powi ?t"
      using near tpos by (intro mult_right_mono) simp_all
    finally show ?thesis by simp
  qed
  have c2: "- 1074 \<le> ?t" by simp
  have b: "2 powi ?k \<le> rat_of_int n / of_int d" "rat_of_int n / of_int d < 2 powi (?k + 1)"
    using ilog2_ratio_bounds[OF assms(1,2)] by simp_all
  have upos: "(0::rat) < 2 powi ?u" by (simp add: zero_less_power_int)
  have y_hi: "?y < 2 ^ 53"
  proof -
    have "?y < 2 powi (?k + 1) * 2 powi ?u"
      using b(2) upos by (intro mult_strict_right_mono)
    also have "\<dots> = 2 powi (?k + 1 + ?u)"
      by (rule power_int_add[symmetric]) simp
    also have "\<dots> \<le> 2 powi 53"
    proof (rule power_int_increasing)
      show "?k + 1 + ?u \<le> 53" by linarith
      show "(1::rat) \<le> 2" by simp
    qed
    finally show ?thesis by simp
  qed
  have y_pos: "0 < ?y"
    using assms upos by simp
  have c3: "0 \<le> ?q"
  proof (rule ccontr)
    assume "\<not> 0 \<le> ?q"
    then have "?q \<le> - 1" by simp
    then have "rat_of_int ?q \<le> - 1" by (metis of_int_le_iff of_int_minus of_int_1)
    then show False using near y_pos by linarith
  qed
  have c4: "?q \<le> 2 ^ 53"
  proof (rule ccontr)
    assume "\<not> ?q \<le> 2 ^ 53"
    then have "2 ^ 53 + 1 \<le> ?q" by simp
    then have "rat_of_int (2 ^ 53 + 1) \<le> of_int ?q" by (simp only: of_int_le_iff)
    then have "2 ^ 53 + 1 \<le> rat_of_int ?q" by simp
    then show False using near y_hi by linarith
  qed
  have c5: "?t = - 1074 \<or> 2 ^ 52 \<le> ?q"
  proof (cases "- 1022 \<le> ?k + s")
    case False
    then show ?thesis by simp
  next
    case True
    then have u: "?u = 52 - ?k" by simp
    have "2 powi ?k * 2 powi ?u \<le> ?y"
      using b(1) upos by (intro mult_right_mono) simp_all
    moreover have "(2::rat) powi ?k * 2 powi ?u = 2 powi (?k + ?u)"
      by (rule power_int_add[symmetric]) simp
    moreover have "?k + ?u = 52" using u by simp
    ultimately have y_lo: "2 ^ 52 \<le> ?y" by simp
    have "2 ^ 52 \<le> ?q"
    proof (rule ccontr)
      assume "\<not> 2 ^ 52 \<le> ?q"
      then have "?q \<le> 2 ^ 52 - 1" by simp
      then have "rat_of_int ?q \<le> of_int (2 ^ 52 - 1)" by (simp only: of_int_le_iff)
      then have "rat_of_int ?q \<le> 2 ^ 52 - 1" by simp
      then show False using near y_lo by linarith
    qed
    then show ?thesis by simp
  qed
  show ?thesis
    unfolding rd using c1 c2 c3 c4 c5 by simp
qed

text \<open>
  The tick duration on the whole-number frequencies from 1 to 1000, computed case by
  case with the code equations.
\<close>

lemma tick_duration_40: "tick_duration (Finite 40 0) = Inr 25"
  by code_simp

lemma spec_duration_whole: "spec_duration (Finite n 0) = 1000 div n"
proof -
  have "\<lfloor>(of_int 1000 :: rat) / of_int n\<rfloor> = 1000 div n"
    by (rule floor_divide_of_int_eq)
  then show ?thesis by (simp add: spec_duration_def)
qed

lemma whole_1_250:
  "list_all (\<lambda>n. tick_duration (Finite n 0) = Inr (word_of_int (1000 div n))) [1..250]"
  by code_simp

lemma whole_251_500:
  "list_all (\<lambda>n. tick_duration (Finite n 0) = Inr (word_of_int (1000 div n))) [251..500]"
  by code_simp

lemma whole_501_750:
  "list_all (\<lambda>n. tick_duration (Finite n 0) = Inr (word_of_int (1000 div n))) [501..750]"
  by code_simp

lemma whole_751_1000:
  "list_all (\<lambda>n. tick_duration (Finite n 0) = Inr (word_of_int (1000 div n))) [751..1000]"
  by code_simp

lemma tick_duration_whole:
  assumes "1 \<le> n" and "n \<le> 1000"
  shows "tick_duration (Finite n 0) = Inr (word_of_int (1000 div n))"
proof -
  have "n \<in> {1..250} \<or> n \<in> {251..500} \<or> n \<in> {501..750} \<or> n \<in> {751..1000}"
    using assms by auto
  then have "n \<in> set [1..250] \<or> n \<in> set [251..500] \<or> n \<in> set [501..750] \<or> n \<in> set [751..1000]"
    by (simp only: set_upto)
  then show ?thesis
    using whole_1_250 whole_251_500 whole_501_750 whole_751_1000
    unfolding list_all_iff by blast
qed


text \<open>Some doubles the arithmetic must produce: 0.025, a third, 25, and the two ends.\<close>

lemma known_doubles:
  "one_over (Finite 40 0) = Finite 7205759403792794 (- 58)"
  "one_over (Finite 3 0) = Finite 6004799503160661 (- 54)"
  "times_1000 (Finite 7205759403792794 (- 58)) = Finite 7036874417766400 (- 48)"
  "one_over (Finite 1 (- 1074)) = PosInf"
  "one_over (Finite 1 1075) = Finite 0 (- 1074)"
  by code_simp+


text \<open>The handshake loop never leaves through \<open>return true\<close>.\<close>

lemma create_schedulers_never_true:
  "create_schedulers w sync_msg duration is st = Inr (r, st') \<Longrightarrow> r = None \<or> r = Some False"
proof (induction "is" arbitrary: st)
  case Nil
  then show ?case by simp
next
  case (Cons i "is")
  then show ?case
    by (auto simp: Let_def call_bool_def split: sum.splits if_splits list.splits)
qed

lemma create_scheduler_never_true:
  "create_scheduler w sync_msg frequency st = Inr (b, st') \<Longrightarrow> \<not> b"
  by (auto simp: create_scheduler_def Let_def split: sum.splits if_splits option.splits
      dest: create_schedulers_never_true)


lemma m_com_ports_small:
  "i < 2 \<Longrightarrow> m_com_ports i st = Inr (if i = 0 then m_com_port_1 st else m_com_port_2 st)"
  by (auto simp: m_com_ports_def)

lemma open_port_eq:
  "from_bytes w com_port = Some wide \<Longrightarrow>
   open_port w i com_port st =
     Inr (let h = new_handle w (history st) (c_str (com_prefix @ wide))
          in (h \<noteq> INVALID_HANDLE_VALUE,
              (set_hComm i h st)\<lparr>history := history st @
                 (if h = INVALID_HANDLE_VALUE then open_failed_events com_port wide
                  else opened_events com_port wide h)\<rparr>))"
  by (simp add: open_port_def Let_def record_call_def call_void_def set_hComm_def
      open_failed_events_def opened_events_def)

lemma open_port_throws:
  "from_bytes w com_port = None \<Longrightarrow> open_port w i com_port st = Inl (RangeError com_port)"
  by (simp add: open_port_def)

lemma configure_port_eq:
  "\<exists>got applied timed.
     configure_port w h st =
       (got \<and> applied \<and> timed,
        st\<lparr>history := history st @ configure_events h got applied timed\<rparr>) \<and>
     answered_by w (history st) (configure_events h got applied timed)"
proof -
  let ?g = "answer w (history st) (GetCommState h)"
  let ?H1 = "history st @ [(GetCommState h, Flag ?g)]"
  let ?s = "answer w ?H1 (SetCommState h)"
  let ?H2 = "?H1 @ [(SetCommState h, Flag ?s)]"
  let ?t = "answer w ?H2 (SetCommTimeouts h)"
  have "configure_port w h st =
       (?g \<and> ?s \<and> ?t, st\<lparr>history := history st @ configure_events h ?g ?s ?t\<rparr>)"
    by (simp add: configure_port_def call_bool_def record_call_def call_void_def Let_def
        configure_events_def)
  moreover have "answered_by w (history st) (configure_events h ?g ?s ?t)"
    by (simp add: configure_events_def)
  ultimately show ?thesis by blast
qed


lemma initialize_channels_trace:
  assumes "\<forall>c \<in> set cs. board_num c < 2" and "m_num_ports st \<le> 2"
  shows "\<exists>ok evs.
           initialize_channels w cs st = Inr (ok, st\<lparr>history := history st @ evs\<rparr>) \<and>
           answered_by w (history st) evs \<and>
           (ok \<longrightarrow>
              bring_up conv port1 port2 (m_delay_time st) on n (m_hComm_1 st, m_hComm_2 st) [] cs
                (evs @ [(LOG Info ''Setup Completed successfully.'', Done)])
                (m_hComm_1 st, m_hComm_2 st) True) \<and>
           (\<not> ok \<longrightarrow>
              bring_up conv port1 port2 (m_delay_time st) on n (m_hComm_1 st, m_hComm_2 st) [] cs
                (evs @ shutdown_events on n (m_hComm_1 st, m_hComm_2 st))
                (m_hComm_1 st, m_hComm_2 st) False)"
  using assms
proof (induction cs arbitrary: st)
  case Nil
  have "initialize_channels w [] st = Inr (True, st\<lparr>history := history st @ []\<rparr>)"
    by simp
  then show ?case
    by (intro exI[of _ True] exI[of _ "[]"]) (simp add: bring_up.completed)
next
  case (Cons c cs)
  let ?p = "(m_hComm_1 st, m_hComm_2 st)"
  let ?h = "if board_num c = 0 then fst ?p else snd ?p"
  let ?op = "Channel_setup_channel c ?h (m_delay_time st)"
  let ?ok = "answer w (history st) ?op"
  let ?e = "(?op, Flag ?ok)"
  let ?st1 = "st\<lparr>history := history st @ [?e]\<rparr>"
  have c: "board_num c < 2" and rest: "\<forall>c \<in> set cs. board_num c < 2"
    using Cons.prems(1) by simp_all
  have h: "m_hComms (board_num c) st = Inr ?h"
    using c by (simp add: m_hComms_small)
  show ?case
  proof (cases ?ok)
    case False
    have "initialize_channels w (c # cs) st = Inr (False, st\<lparr>history := history st @ [?e]\<rparr>)"
      using False by (simp add: h call_bool_def record_call_def Let_def)
    moreover have "bring_up conv port1 port2 (m_delay_time st) on n ?p [] (c # cs)
                (?e # shutdown_events on n ?p) ?p False"
      using bring_up.channel_failed[of conv port1 port2 "m_delay_time st" on n ?p c cs] False
      by simp
    moreover have "answered_by w (history st) [?e]"
      by simp
    ultimately show ?thesis
      by (intro exI[of _ False] exI[of _ "[?e]"]) simp
  next
    case True
    have np1: "m_num_ports ?st1 \<le> 2" using Cons.prems(2) by simp
    from Cons.IH[OF rest np1] obtain ok evs where
      run: "initialize_channels w cs ?st1 = Inr (ok, ?st1\<lparr>history := history ?st1 @ evs\<rparr>)"
      and ans: "answered_by w (history ?st1) evs"
      and good: "ok \<longrightarrow>
              bring_up conv port1 port2 (m_delay_time st) on n ?p [] cs
                (evs @ [(LOG Info ''Setup Completed successfully.'', Done)]) ?p True"
      and bad: "\<not> ok \<longrightarrow>
              bring_up conv port1 port2 (m_delay_time st) on n ?p [] cs
                (evs @ shutdown_events on n ?p) ?p False"
      by auto
    have "initialize_channels w (c # cs) st =
            Inr (ok, st\<lparr>history := history st @ (?e # evs)\<rparr>)"
      using True run by (simp add: h call_bool_def record_call_def Let_def)
    moreover have "answered_by w (history st) (?e # evs)"
      using ans by simp
    moreover have "ok \<longrightarrow>
              bring_up conv port1 port2 (m_delay_time st) on n ?p [] (c # cs)
                ((?e # evs) @ [(LOG Info ''Setup Completed successfully.'', Done)]) ?p True"
      using good
        bring_up.channel_set_up[of conv port1 port2 "m_delay_time st" on n ?p cs _ ?p True c]
        True
      by auto
    moreover have "\<not> ok \<longrightarrow>
              bring_up conv port1 port2 (m_delay_time st) on n ?p [] (c # cs)
                ((?e # evs) @ shutdown_events on n ?p) ?p False"
      using bad
        bring_up.channel_set_up[of conv port1 port2 "m_delay_time st" on n ?p cs _ ?p False c]
        True
      by auto
    ultimately show ?thesis by blast
  qed
qed


lemma enable_ports_trace:
  assumes "\<forall>i \<in> set is. i < 2" and "m_num_ports st \<le> 2"
    and "\<forall>i \<in> set is. from_bytes w (if i = 0 then m_com_port_1 st else m_com_port_2 st) \<noteq> None"
  shows "\<exists>r p evs.
           enable_ports w is st =
             Inr (r, st\<lparr>m_hComm_1 := fst p, m_hComm_2 := snd p,
                       history := history st @ evs,
                       m_enabled := (r = None \<and> m_enabled st)\<rparr>) \<and>
           (r = None \<or> r = Some False) \<and>
           answered_by w (history st) evs \<and>
           (r = None \<longrightarrow>
              (\<forall>cs evs2 p' b.
                 bring_up (from_bytes w) (m_com_port_1 st) (m_com_port_2 st) delay (m_enabled st)
                   (m_num_ports st) p [] cs evs2 p' b \<longrightarrow>
                 bring_up (from_bytes w) (m_com_port_1 st) (m_com_port_2 st) delay (m_enabled st)
                   (m_num_ports st) (m_hComm_1 st, m_hComm_2 st) is cs (evs @ evs2) p' b)) \<and>
           (r = Some False \<longrightarrow>
              (\<forall>cs. bring_up (from_bytes w) (m_com_port_1 st) (m_com_port_2 st) delay
                      (m_enabled st) (m_num_ports st) (m_hComm_1 st, m_hComm_2 st) is cs evs p
                      False))"
  using assms
proof (induction "is" arbitrary: st)
  case Nil
  have "enable_ports w [] st =
          Inr (None, st\<lparr>m_hComm_1 := fst (m_hComm_1 st, m_hComm_2 st),
                         m_hComm_2 := snd (m_hComm_1 st, m_hComm_2 st),
                         history := history st @ [],
                         m_enabled := (None = (None :: bool option) \<and> m_enabled st)\<rparr>)"
    by simp
  then show ?case
    by (intro exI[of _ None] exI[of _ "(m_hComm_1 st, m_hComm_2 st)"] exI[of _ "[]"]) simp
next
  case (Cons i "is")
  let ?cv = "from_bytes w"
  let ?P1 = "m_com_port_1 st" and ?P2 = "m_com_port_2 st"
  let ?on = "m_enabled st" and ?n = "m_num_ports st"
  let ?p0 = "(m_hComm_1 st, m_hComm_2 st)"
  let ?name = "if i = 0 then ?P1 else ?P2"
  have i: "i < 2" and rest: "\<forall>k \<in> set is. k < 2" using Cons.prems(1) by simp_all
  obtain wide where cv: "?cv ?name = Some wide"
    using Cons.prems(3) by auto
  let ?h = "new_handle w (history st) (c_str (com_prefix @ wide))"
  let ?p1 = "if i = 0 then (?h, snd ?p0) else (fst ?p0, ?h)"
  have name: "m_com_ports i st = Inr ?name" using i by (rule m_com_ports_small)
  have handles: "set_hComm i ?h st = st\<lparr>m_hComm_1 := fst ?p1, m_hComm_2 := snd ?p1\<rparr>"
    by (simp add: set_hComm_def)
  have op_gen: "open_port w i ?name st =
     Inr (?h \<noteq> INVALID_HANDLE_VALUE,
      st\<lparr>m_hComm_1 := fst ?p1, m_hComm_2 := snd ?p1,
         history := history st @
           (if ?h = INVALID_HANDLE_VALUE then open_failed_events ?name wide
            else opened_events ?name wide ?h)\<rparr>)"
    unfolding open_port_eq[OF cv] by (simp add: Let_def handles)
  show ?case
  proof (cases "?h = INVALID_HANDLE_VALUE")
    case True
    let ?sf = "st\<lparr>m_hComm_1 := fst ?p1, m_hComm_2 := snd ?p1,
                   history := history st @ open_failed_events ?name wide\<rparr>"
    let ?evs = "open_failed_events ?name wide @ shutdown_events ?on ?n ?p1"
    have op: "open_port w i ?name st = Inr (False, ?sf)"
      using op_gen True by simp
    have "disable ?sf =
            Inr (?sf\<lparr>history := history ?sf @ disable_events ?sf, m_enabled := False\<rparr>)"
      by (rule disable_eq) (use Cons.prems(2) in simp)
    then have d: "disable ?sf =
            Inr (st\<lparr>m_hComm_1 := fst ?p1, m_hComm_2 := snd ?p1,
                      history := history st @ ?evs, m_enabled := False\<rparr>)"
      by (simp add: disable_events_def)
    have run: "enable_ports w (i # is) st =
            Inr (Some False,
                 st\<lparr>m_hComm_1 := fst ?p1, m_hComm_2 := snd ?p1,
                      history := history st @ ?evs,
                      m_enabled := (Some False = None \<and> m_enabled st)\<rparr>)"
      by (simp add: name op d)
    have "\<forall>cs. bring_up ?cv ?P1 ?P2 delay ?on ?n ?p0 (i # is) cs
            (open_failed_events ?name wide @
             shutdown_events ?on ?n
               (if i = 0 then (INVALID_HANDLE_VALUE, snd ?p0)
                else (fst ?p0, INVALID_HANDLE_VALUE)))
            (if i = 0 then (INVALID_HANDLE_VALUE, snd ?p0) else (fst ?p0, INVALID_HANDLE_VALUE))
            False"
      by (intro allI
          bring_up.port_not_opened[where conv = "?cv" and ?port1.0 = "?P1" and ?port2.0 = "?P2"
            and i = i and wide = wide, OF cv])
    then have tr: "\<forall>cs. bring_up ?cv ?P1 ?P2 delay ?on ?n ?p0 (i # is) cs ?evs ?p1 False"
      unfolding True .
    have "answered_by w (history st) (open_failed_events ?name wide)"
      using True by (simp add: open_failed_events_def)
    then have ans: "answered_by w (history st) ?evs"
      by (simp add: answered_by_append answered_by_shutdown)
    show ?thesis
      using run tr ans
      by (intro exI[of _ "Some False"] exI[of _ ?p1] exI[of _ ?evs]) simp
  next
    case False
    let ?st1 = "st\<lparr>m_hComm_1 := fst ?p1, m_hComm_2 := snd ?p1,
                    history := history st @ opened_events ?name wide ?h\<rparr>"
    have op: "open_port w i ?name st = Inr (True, ?st1)"
      using op_gen False by simp
    have hc: "m_hComms i ?st1 = Inr ?h"
      using i by (simp add: m_hComms_small)
    have oa: "answered_by w (history st) (opened_events ?name wide ?h)"
      by (simp add: opened_events_def)
    obtain got applied timed where
      cf: "configure_port w ?h ?st1 =
             (got \<and> applied \<and> timed,
              ?st1\<lparr>history := history ?st1 @ configure_events ?h got applied timed\<rparr>)"
      and ca: "answered_by w (history ?st1) (configure_events ?h got applied timed)"
      using configure_port_eq by blast
    let ?st2 = "st\<lparr>m_hComm_1 := fst ?p1, m_hComm_2 := snd ?p1,
                    history := history st @ opened_events ?name wide ?h @
                               configure_events ?h got applied timed\<rparr>"
    have cf2: "configure_port w ?h ?st1 = (got \<and> applied \<and> timed, ?st2)"
      using cf by simp
    have oca: "answered_by w (history st)
                 (opened_events ?name wide ?h @ configure_events ?h got applied timed)"
      using oa ca by (simp add: answered_by_append)
    show ?thesis
    proof (cases "got \<and> applied \<and> timed")
      case bad: False
      let ?evs = "opened_events ?name wide ?h @ configure_events ?h got applied timed @
                  shutdown_events ?on ?n ?p1"
      have "disable ?st2 =
              Inr (?st2\<lparr>history := history ?st2 @ disable_events ?st2, m_enabled := False\<rparr>)"
        by (rule disable_eq) (use Cons.prems(2) in simp)
      then have d: "disable ?st2 =
              Inr (st\<lparr>m_hComm_1 := fst ?p1, m_hComm_2 := snd ?p1,
                        history := history st @ ?evs, m_enabled := False\<rparr>)"
        by (simp add: disable_events_def)
      have run: "enable_ports w (i # is) st =
              Inr (Some False,
                   st\<lparr>m_hComm_1 := fst ?p1, m_hComm_2 := snd ?p1,
                        history := history st @ ?evs,
                        m_enabled := (Some False = None \<and> m_enabled st)\<rparr>)"
        using bad by (simp add: name op hc cf2 d)
      have tr: "\<forall>cs. bring_up ?cv ?P1 ?P2 delay ?on ?n ?p0 (i # is) cs ?evs ?p1 False"
        by (intro allI
            bring_up.port_not_configured[where conv = "?cv" and ?port1.0 = "?P1" and ?port2.0 = "?P2"
              and i = i and wide = wide, OF cv False bad])
      have ans: "answered_by w (history st) ?evs"
        using oca answered_by_shutdown[of w _ ?on ?n ?p1]
        by (simp add: answered_by_append)
      show ?thesis
        using run tr ans
        by (intro exI[of _ "Some False"] exI[of _ ?p1] exI[of _ ?evs]) simp
    next
      case good: True
      have np2: "m_num_ports ?st2 \<le> 2" using Cons.prems(2) by simp
      have names2: "\<forall>k \<in> set is.
          from_bytes w (if k = 0 then m_com_port_1 ?st2 else m_com_port_2 ?st2) \<noteq> None"
      proof
        fix k assume "k \<in> set is"
        then have "from_bytes w (if k = 0 then m_com_port_1 st else m_com_port_2 st) \<noteq> None"
          using Cons.prems(3) by simp
        then show "from_bytes w (if k = 0 then m_com_port_1 ?st2 else m_com_port_2 ?st2) \<noteq> None"
          by (cases "k = 0") simp_all
      qed
      from Cons.IH[OF rest np2 names2] obtain r p evs where
        run': "enable_ports w is ?st2 =
             Inr (r, ?st2\<lparr>m_hComm_1 := fst p, m_hComm_2 := snd p,
                       history := history ?st2 @ evs,
                       m_enabled := (r = None \<and> m_enabled ?st2)\<rparr>)"
        and r: "r = None \<or> r = Some False"
        and ans': "answered_by w (history ?st2) evs"
        and cont: "r = None \<longrightarrow>
              (\<forall>cs evs2 p' b.
                 bring_up ?cv ?P1 ?P2 delay ?on ?n p [] cs evs2 p' b \<longrightarrow>
                 bring_up ?cv ?P1 ?P2 delay ?on ?n ?p1 is cs (evs @ evs2) p' b)"
        and stop: "r = Some False \<longrightarrow>
              (\<forall>cs. bring_up ?cv ?P1 ?P2 delay ?on ?n ?p1 is cs evs p False)"
        by (auto split: if_splits)
      let ?evs = "opened_events ?name wide ?h @ configure_events ?h True True True @ evs"
      have run: "enable_ports w (i # is) st =
             Inr (r, st\<lparr>m_hComm_1 := fst p, m_hComm_2 := snd p,
                       history := history st @ ?evs,
                       m_enabled := (r = None \<and> m_enabled st)\<rparr>)"
        using good run' by (simp add: name op hc cf2)
      have ans: "answered_by w (history st) ?evs"
        using oca ans' good by (simp add: answered_by_append)
      have c2: "r = None \<longrightarrow>
              (\<forall>cs evs2 p' b.
                 bring_up ?cv ?P1 ?P2 delay ?on ?n p [] cs evs2 p' b \<longrightarrow>
                 bring_up ?cv ?P1 ?P2 delay ?on ?n ?p0 (i # is) cs (?evs @ evs2) p' b)"
      proof (intro impI allI)
        fix cs evs2 p' b
        assume "r = None" and "bring_up ?cv ?P1 ?P2 delay ?on ?n p [] cs evs2 p' b"
        then have "bring_up ?cv ?P1 ?P2 delay ?on ?n ?p1 is cs (evs @ evs2) p' b"
          using cont by blast
        from bring_up.port_ready[where conv = "?cv" and ?port1.0 = "?P1" and ?port2.0 = "?P2"
            and i = i and wide = wide, OF cv False this]
        show "bring_up ?cv ?P1 ?P2 delay ?on ?n ?p0 (i # is) cs (?evs @ evs2) p' b"
          by simp
      qed
      have s2: "r = Some False \<longrightarrow>
              (\<forall>cs. bring_up ?cv ?P1 ?P2 delay ?on ?n ?p0 (i # is) cs ?evs p False)"
      proof (intro impI allI)
        fix cs
        assume "r = Some False"
        then have "bring_up ?cv ?P1 ?P2 delay ?on ?n ?p1 is cs evs p False"
          using stop by blast
        from bring_up.port_ready[where conv = "?cv" and ?port1.0 = "?P1" and ?port2.0 = "?P2"
            and i = i and wide = wide, OF cv False this]
        show "bring_up ?cv ?P1 ?P2 delay ?on ?n ?p0 (i # is) cs ?evs p False"
          by simp
      qed
      show ?thesis
        using run r ans c2 s2 by blast
    qed
  qed
qed


lemma shutdown_events_not_failed: "e \<in> set (shutdown_events on n p) \<Longrightarrow> \<not> failed e"
  by (auto simp: shutdown_events_def split: if_splits)

lemma opened_events_failed:
  "(\<exists>e \<in> set (opened_events name wide h). failed e) \<longleftrightarrow> h = INVALID_HANDLE_VALUE"
  by (simp add: opened_events_def)

lemma open_failed_events_failed: "\<exists>e \<in> set (open_failed_events name wide). failed e"
  by (simp add: open_failed_events_def)

lemma configure_events_failed:
  "(\<exists>e \<in> set (configure_events h got applied timed). failed e) \<longleftrightarrow>
     \<not> (got \<and> applied \<and> timed)"
  by (auto simp: configure_events_def)

lemma bring_up_result:
  "bring_up conv port1 port2 delay on n p is cs evs p' b \<Longrightarrow>
   b \<longleftrightarrow> (\<forall>e \<in> set evs. \<not> failed e)"
proof (induction rule: bring_up.induct)
  case (completed p)
  then show ?case by simp
next
  case (channel_set_up p cs evs p' b c)
  then show ?case by simp
next
  case (channel_failed p c cs)
  then show ?case by simp
next
  case (port_ready i wide h p "is" cs evs p' b)
  then show ?case
    using opened_events_failed[of "if i = 0 then port1 else port2" wide h]
      configure_events_failed[of h True True True]
    by auto
next
  case (port_not_opened i wide p "is" cs)
  then show ?case
    using open_failed_events_failed[of "if i = 0 then port1 else port2" wide]
    by auto
next
  case (port_not_configured i wide h got applied timed p "is" cs)
  then show ?case
    using configure_events_failed[of h got applied timed]
    by auto
qed


lemma shutdown_events_no_step: "x \<in> set (shutdown_events on n p) \<Longrightarrow> \<not> is_bring_up_step x"
  by (auto simp: shutdown_events_def split: if_splits)

lemma stops_prepend:
  "stops_at_first_failure on n evs \<Longrightarrow> \<forall>x \<in> set xs. \<not> failed x \<Longrightarrow>
   stops_at_first_failure on n (xs @ evs)"
proof -
  assume "stops_at_first_failure on n evs" and ok: "\<forall>x \<in> set xs. \<not> failed x"
  then obtain pre e post p where
    s: "evs = pre @ e # post @ shutdown_events on n p" "failed e"
       "\<forall>x \<in> set pre. \<not> failed x"
       "\<forall>x \<in> set (post @ shutdown_events on n p). \<not> is_bring_up_step x"
    unfolding stops_at_first_failure_def by blast
  have "xs @ evs = (xs @ pre) @ e # post @ shutdown_events on n p"
    using s(1) by simp
  moreover have "\<forall>x \<in> set (xs @ pre). \<not> failed x"
    using ok s(3) by auto
  ultimately show ?thesis
    unfolding stops_at_first_failure_def using s(2,4) by blast
qed

lemma stopsI:
  "failed e \<Longrightarrow> \<forall>x \<in> set pre. \<not> failed x \<Longrightarrow> \<forall>x \<in> set post. \<not> is_bring_up_step x \<Longrightarrow>
   stops_at_first_failure on n (pre @ e # post @ shutdown_events on n p)"
  unfolding stops_at_first_failure_def
  using shutdown_events_no_step by (metis Un_iff set_append)

lemma configure_events_stop:
  assumes "\<not> (got \<and> applied \<and> timed)"
  shows "\<exists>pre e post. configure_events h got applied timed = pre @ e # post \<and> failed e \<and>
           (\<forall>x \<in> set pre. \<not> failed x) \<and> (\<forall>x \<in> set post. \<not> is_bring_up_step x)"
proof (cases got)
  case False
  have "configure_events h got applied timed =
          [] @ (GetCommState h, Flag False) #
            [(LOG Error ''Error getting serial port state'', Done)]"
    using False by (simp add: configure_events_def)
  then show ?thesis by (intro exI conjI, assumption) simp_all
next
  case got: True
  show ?thesis
  proof (cases applied)
    case False
    have "configure_events h got applied timed =
          [(GetCommState h, Flag True)] @ (SetCommState h, Flag False) #
            [(LOG Error ''Error setting serial port state'', Done)]"
      using got False by (simp add: configure_events_def)
    then show ?thesis by (intro exI conjI, assumption) simp_all
  next
    case True
    then have "\<not> timed" using assms got by simp
    then have "configure_events h got applied timed =
          [(GetCommState h, Flag True), (SetCommState h, Flag True)] @
            (SetCommTimeouts h, Flag False) #
            [(LOG Error ''Error setting serial port timeouts'', Done)]"
      using got True by (simp add: configure_events_def)
    then show ?thesis by (intro exI conjI, assumption) simp_all
  qed
qed

lemma bring_up_stops:
  "bring_up conv port1 port2 delay on n p is cs evs p' b \<Longrightarrow> \<not> b \<Longrightarrow>
   stops_at_first_failure on n evs"
proof (induction rule: bring_up.induct)
  case (completed p)
  then show ?case by simp
next
  case (channel_set_up p cs evs p' b c)
  then show ?case
    using stops_prepend[of on n evs
        "[(Channel_setup_channel c (if board_num c = 0 then fst p else snd p) delay, Flag True)]"]
    by simp
next
  case (channel_failed p c cs)
  show ?case
    using stopsI[of "(Channel_setup_channel c (if board_num c = 0 then fst p else snd p) delay,
                      Flag False)" "[]" "[]" on n p]
    by simp
next
  case (port_ready i wide h p "is" cs evs p' b)
  have "\<forall>x \<in> set (opened_events (if i = 0 then port1 else port2) wide h @
                    configure_events h True True True). \<not> failed x"
    using port_ready.hyps(2) by (simp add: opened_events_def configure_events_def)
  then show ?case
    using stops_prepend[of on n evs "opened_events (if i = 0 then port1 else port2) wide h @
                    configure_events h True True True"] port_ready
    by simp
next
  case (port_not_opened i wide p "is" cs)
  show ?case
    using stopsI[of "(CreateFileW (c_str (com_prefix @ wide)), Opened INVALID_HANDLE_VALUE)" "[]"
                    "[(LOG Error (''Failed to open port '' @ (if i = 0 then port1 else port2)),
                       Done)]" on n]
    by (simp add: open_failed_events_def)
next
  case (port_not_configured i wide h got applied timed p "is" cs)
  from configure_events_stop[OF port_not_configured.hyps(3), of h] obtain pre e post where
    c: "configure_events h got applied timed = pre @ e # post" "failed e"
       "\<forall>x \<in> set pre. \<not> failed x" "\<forall>x \<in> set post. \<not> is_bring_up_step x"
    by blast
  have pre: "\<forall>x \<in> set (opened_events (if i = 0 then port1 else port2) wide h @ pre). \<not> failed x"
    using c(3) port_not_configured.hyps(2) by (simp add: opened_events_def)
  show ?case
    using stopsI[OF c(2) pre c(4), of on n "if i = 0 then (h, snd p) else (fst p, h)"] c(1)
    by simp
qed


text \<open>The configured port names all decode exactly when the name of each port does.\<close>

lemma port_names_convert_iff:
  "m_num_ports st \<le> 2 \<Longrightarrow>
   port_names_convert w st \<longleftrightarrow>
     (\<forall>i \<in> set [0..<m_num_ports st].
        from_bytes w (if i = 0 then m_com_port_1 st else m_com_port_2 st) \<noteq> None)"
proof -
  assume "m_num_ports st \<le> 2"
  then consider "m_num_ports st = 0" | "m_num_ports st = 1" | "m_num_ports st = 2"
    by linarith
  then show ?thesis
  proof cases
    case 1
    then show ?thesis by (simp add: port_names_convert_def)
  next
    case 2
    then show ?thesis by (simp add: port_names_convert_def)
  next
    case 3
    have "[0..<2] = [0, Suc 0]" by (simp add: upt_rec)
    then show ?thesis using 3 by (simp add: port_names_convert_def)
  qed
qed


lemma enable_trace:
  assumes "m_num_ports st \<le> 2" and "\<forall>c \<in> set (m_channels st). board_num c < 2"
    and "port_names_convert w st"
  shows "\<exists>b p evs.
           enable w st =
             Inr (b, st\<lparr>m_hComm_1 := fst p, m_hComm_2 := snd p,
                       history := history st @ evs, m_enabled := b\<rparr>) \<and>
           answered_by w (history st) evs \<and>
           bring_up (from_bytes w) (m_com_port_1 st) (m_com_port_2 st) (m_delay_time st)
             (m_enabled st) (m_num_ports st) (m_hComm_1 st, m_hComm_2 st)
             [0..<m_num_ports st] (m_channels st) evs p b \<and>
           (b \<longleftrightarrow> (\<forall>e \<in> set evs. \<not> failed e)) \<and>
           (\<not> b \<longrightarrow> stops_at_first_failure (m_enabled st) (m_num_ports st) evs)"
proof -
  let ?cv = "from_bytes w"
  let ?P1 = "m_com_port_1 st" and ?P2 = "m_com_port_2 st"
  let ?on = "m_enabled st" and ?n = "m_num_ports st" and ?d = "m_delay_time st"
  let ?p0 = "(m_hComm_1 st, m_hComm_2 st)"
  let ?cs = "m_channels st"
  have small: "\<forall>i \<in> set [0..<?n]. i < 2" using assms(1) by auto
  have names: "\<forall>i \<in> set [0..<?n]. from_bytes w (if i = 0 then ?P1 else ?P2) \<noteq> None"
    using assms(3) port_names_convert_iff[OF assms(1)] by blast
  from enable_ports_trace[OF small assms(1) names, of ?d] obtain r p evs where
    run: "enable_ports w [0..<?n] st =
             Inr (r, st\<lparr>m_hComm_1 := fst p, m_hComm_2 := snd p,
                       history := history st @ evs,
                       m_enabled := (r = None \<and> m_enabled st)\<rparr>)"
    and r: "r = None \<or> r = Some False"
    and ans: "answered_by w (history st) evs"
    and cont: "r = None \<longrightarrow>
              (\<forall>cs evs2 p' b.
                 bring_up ?cv ?P1 ?P2 ?d ?on ?n p [] cs evs2 p' b \<longrightarrow>
                 bring_up ?cv ?P1 ?P2 ?d ?on ?n ?p0 [0..<?n] cs (evs @ evs2) p' b)"
    and stop: "r = Some False \<longrightarrow>
              (\<forall>cs. bring_up ?cv ?P1 ?P2 ?d ?on ?n ?p0 [0..<?n] cs evs p False)"
    by blast
  have main: "\<exists>b p evs.
           enable w st =
             Inr (b, st\<lparr>m_hComm_1 := fst p, m_hComm_2 := snd p,
                       history := history st @ evs, m_enabled := b\<rparr>) \<and>
           answered_by w (history st) evs \<and>
           bring_up ?cv ?P1 ?P2 ?d ?on ?n ?p0 [0..<?n] ?cs evs p b"
  proof (cases "r = None")
    case False
    then have rf: "r = Some False" using r by blast
    have "enable w st =
            Inr (False, st\<lparr>m_hComm_1 := fst p, m_hComm_2 := snd p,
                            history := history st @ evs, m_enabled := False\<rparr>)"
      using run rf by (simp add: enable_def)
    moreover have "bring_up ?cv ?P1 ?P2 ?d ?on ?n ?p0 [0..<?n] ?cs evs p False"
      using stop rf by blast
    ultimately show ?thesis
      using ans by blast
  next
    case True
    let ?st1 = "st\<lparr>m_hComm_1 := fst p, m_hComm_2 := snd p, history := history st @ evs\<rparr>"
    have run1: "enable_ports w [0..<?n] st = Inr (None, ?st1)"
      using run True by simp
    have boards: "\<forall>c \<in> set ?cs. board_num c < 2" using assms(2) .
    have np1: "m_num_ports ?st1 \<le> 2" using assms(1) by simp
    from initialize_channels_trace[OF boards np1, of w ?cv ?P1 ?P2 ?on ?n] obtain ok evs2 where
      ic: "initialize_channels w ?cs ?st1 = Inr (ok, ?st1\<lparr>history := history ?st1 @ evs2\<rparr>)"
      and ans2: "answered_by w (history st @ evs) evs2"
      and good: "ok \<longrightarrow> bring_up ?cv ?P1 ?P2 ?d ?on ?n p [] ?cs
                (evs2 @ [(LOG Info ''Setup Completed successfully.'', Done)]) p True"
      and bad: "\<not> ok \<longrightarrow> bring_up ?cv ?P1 ?P2 ?d ?on ?n p [] ?cs
                (evs2 @ shutdown_events ?on ?n p) p False"
      by auto
    show ?thesis
    proof (cases ok)
      case ok: True
      let ?new = "evs @ evs2 @ [(LOG Info ''Setup Completed successfully.'', Done)]"
      have "enable w st =
              Inr (True, st\<lparr>m_hComm_1 := fst p, m_hComm_2 := snd p,
                             history := history st @ ?new, m_enabled := True\<rparr>)"
        using run1 ic ok
        by (simp add: enable_def initialize_board_def call_void_def record_call_def)
      moreover have "answered_by w (history st) ?new"
        using ans ans2 by (simp add: answered_by_append)
      moreover have "bring_up ?cv ?P1 ?P2 ?d ?on ?n ?p0 [0..<?n] ?cs ?new p True"
        using cont True good ok by blast
      ultimately show ?thesis
        by blast
    next
      case nok: False
      let ?new = "evs @ evs2 @ shutdown_events ?on ?n p"
      let ?st2 = "st\<lparr>m_hComm_1 := fst p, m_hComm_2 := snd p,
                      history := history st @ evs @ evs2\<rparr>"
      let ?st' = "st\<lparr>m_hComm_1 := fst p, m_hComm_2 := snd p,
                      history := history st @ ?new, m_enabled := False\<rparr>"
      have "disable ?st2 =
              Inr (?st2\<lparr>history := history ?st2 @ disable_events ?st2, m_enabled := False\<rparr>)"
        by (rule disable_eq) (use assms(1) in simp)
      then have d: "disable ?st2 = Inr ?st'"
        by (simp add: disable_events_def)
      have "enable w st = Inr (False, ?st')"
        using run1 ic nok d
        by (simp add: enable_def initialize_board_def)
      moreover have "answered_by w (history st) ?new"
        using ans ans2 by (simp add: answered_by_append answered_by_shutdown)
      moreover have "bring_up ?cv ?P1 ?P2 ?d ?on ?n ?p0 [0..<?n] ?cs ?new p False"
        using cont True bad nok by blast
      ultimately show ?thesis
        by blast
    qed
  qed
  then obtain b p evs where
    e: "enable w st =
             Inr (b, st\<lparr>m_hComm_1 := fst p, m_hComm_2 := snd p,
                       history := history st @ evs, m_enabled := b\<rparr>)"
    and a: "answered_by w (history st) evs"
    and t: "bring_up ?cv ?P1 ?P2 ?d ?on ?n ?p0 [0..<?n] ?cs evs p b"
    by blast
  from bring_up_result[OF t] bring_up_stops[OF t] e a t show ?thesis by blast
qed

text \<open>
  A first port whose name the decoder rejects: \<open>enable\<close> is left by the exception, before
  any call is made.
\<close>

lemma enable_throws_on_bad_port_name:
  "0 < m_num_ports st \<Longrightarrow> from_bytes w (m_com_port_1 st) = None \<Longrightarrow>
   enable w st = Inl (RangeError (m_com_port_1 st))"
proof -
  assume n: "0 < m_num_ports st" and bad: "from_bytes w (m_com_port_1 st) = None"
  have "[0..<m_num_ports st] = 0 # [1..<m_num_ports st]"
    using n by (simp add: upt_rec)
  then show ?thesis
    using bad by (simp add: enable_def m_com_ports_def open_port_def)
qed

section \<open>Claim C1: the result of \<open>create_scheduler\<close>\<close>

text \<open>
  C1. The claim has \<open>create_scheduler\<close> return true when every handshake is answered by
  a valid frame. On an enabled, non-virtual stimulator with one port whose handshake is
  acknowledged by a valid frame with payload 3, \<open>create_scheduler(0xAA, 40)\<close> creates the
  schedule with a 25 ms tick, reads the frame, sets the schedule id to 3, leaves the
  stimulator enabled, and returns false: the \<open>success\<close> it returns is the one declared
  before the loop, which nothing assigns (\<open>create_scheduler_never_true\<close> is the general
  fact).
\<close>

theorem create_scheduler_valid_handshake_returns_false:
  "create_scheduler demo_world 0xAA (Finite 40 0) (demo_stim True) =
     Inr (False,
          (demo_stim True)\<lparr>history :=
             [(Scheduler_create_scheduler 0 7 0xAA 25 1, Flag True),
              (Read_message 7 True,
               Frame \<lparr>is_valid = True, get_data = [3], get_message = [4, 128, 16, 0, 3]\<rparr>),
              (Scheduler_set_id 0 3, Done)]\<rparr>)"
  by (simp add: create_scheduler_def tick_duration_40 is_enabled_def demo_stim_def
      demo_world_def m_schedulers_def m_hComms_def call_bool_def record_call_def
      call_void_def Let_def)


section \<open>Claim C2: an invalid inbound frame disables the stimulator\<close>

text \<open>
  C2. On an enabled stimulator (at most two ports, the snapshot refresh inside its
  vectors) \<open>update\<close> returns, having updated the scheduler of every port and drained the
  inbound frames once; every outcome in what it did is the one the environment gave, the
  drained frames included. If one of the drained frames is invalid it returns false and
  the stimulator is disabled when it returns; if no scheduler update failed and every
  drained frame is valid it returns true and the stimulator is still enabled. In every
  case the stimulator is enabled afterwards exactly when \<open>update\<close> returned true.
\<close>

theorem update_invalid_frame_disables:
  assumes "is_enabled st" and "m_num_ports st \<le> 2" and "update_snapshot w st = Inr st1"
  shows "\<exists>b st' ms. update w st = Inr (b, st') \<and>
           history st' = history st @ new_events st st' \<and>
           answered_by w (history st) (new_events st st') \<and>
           filter is_scheduler_update (map fst (new_events st st')) =
             map Scheduler_update [0..<m_num_ports st] \<and>
           (Get_all_messages [m_hComm_1 st, m_hComm_2 st] (m_num_ports st), Frames ms)
             \<in> set (new_events st st') \<and>
           (\<forall>op ms'. (op, Frames ms') \<in> set (new_events st st') \<longrightarrow> ms' = ms) \<and>
           ((\<exists>m \<in> set ms. \<not> is_valid m) \<longrightarrow> \<not> b \<and> \<not> is_enabled st') \<and>
           ((\<forall>i. (Scheduler_update i, Flag False) \<notin> set (new_events st st')) \<and>
            (\<forall>m \<in> set ms. is_valid m) \<longrightarrow> b \<and> is_enabled st') \<and>
           is_enabled st' = b"
proof -
  let ?evs = "poll w Scheduler_update [0..<m_num_ports st] (history st)"
  let ?hs = "[m_hComm_1 st, m_hComm_2 st]"
  let ?ms = "all_incoming w (history st @ ?evs) ?hs (m_num_ports st)"
  let ?b = "(\<forall>e \<in> set ?evs. snd e = Flag True) \<and> (\<forall>m \<in> set ?ms. is_valid m)"
  let ?body = "?evs @ (Get_all_messages ?hs (m_num_ports st), Frames ?ms) # complaints ?ms"
  let ?st' = "if ?b then st1\<lparr>history := history st @ ?body\<rparr>
              else st1\<lparr>history := history st @ ?body @ disable_events st1, m_enabled := False\<rparr>"
  note k = update_snapshot_keeps[OF assms(3)]
  have u: "update w st = Inr (?b, ?st')"
    using update_enabled[OF assms] by simp
  have n: "new_events st ?st' = (if ?b then ?body else ?body @ disable_events st1)"
    by (simp add: new_events_def)
  have drained: "(Get_all_messages ?hs (m_num_ports st), Frames ?ms) \<in> set (new_events st ?st')"
    unfolding n by simp
  have only: "\<forall>op ms'. (op, Frames ms') \<in> set (new_events st ?st') \<longrightarrow> ms' = ?ms"
  proof (intro allI impI)
    fix op ms'
    assume a: "(op, Frames ms') \<in> set (new_events st ?st')"
    show "ms' = ?ms"
      using a poll_replies[of "(op, Frames ms')" w Scheduler_update "[0..<m_num_ports st]" "history st"]
        complaints_done[of "(op, Frames ms')" ?ms] disable_events_done[of "(op, Frames ms')" st1]
      unfolding n by (auto split: if_splits)
  qed
  have bad: "(\<exists>m \<in> set ?ms. \<not> is_valid m) \<longrightarrow> \<not> ?b \<and> \<not> is_enabled ?st'"
    by (auto simp: is_enabled_def)
  have good: "(\<forall>i. (Scheduler_update i, Flag False) \<notin> set (new_events st ?st')) \<and>
            (\<forall>m \<in> set ?ms. is_valid m) \<longrightarrow> ?b \<and> is_enabled ?st'"
  proof
    assume a: "(\<forall>i. (Scheduler_update i, Flag False) \<notin> set (new_events st ?st')) \<and>
            (\<forall>m \<in> set ?ms. is_valid m)"
    have "\<forall>e \<in> set ?evs. snd e = Flag True"
    proof
      fix e assume e: "e \<in> set ?evs"
      then obtain f where f: "snd e = Flag f" using poll_replies by blast
      have "fst e \<in> set (map Scheduler_update [0..<m_num_ports st])"
        using e map_fst_poll[of w Scheduler_update "[0..<m_num_ports st]" "history st"]
        by (metis image_eqI list.set_map)
      then obtain i where i: "fst e = Scheduler_update i" by auto
      have "e \<in> set (new_events st ?st')"
        using e unfolding n by (auto split: if_splits)
      then have "e \<noteq> (Scheduler_update i, Flag False)" using a by blast
      then show "snd e = Flag True" using f i by (cases e) auto
    qed
    then have b: ?b using a by blast
    then show "?b \<and> is_enabled ?st'"
      using assms(1) k by (simp add: is_enabled_def)
  qed
  have ext: "history ?st' = history st @ new_events st ?st'"
    unfolding n by simp
  have ans: "answered_by w (history st) (new_events st ?st')"
    unfolding n
    by (simp add: answered_by_append answered_by_poll answered_by_complaints
        answered_by_disable_events)
  have upd: "filter is_scheduler_update (map fst (new_events st ?st')) =
             map Scheduler_update [0..<m_num_ports st]"
    unfolding n
    by (simp add: poll_updates_only complaints_no_update disable_events_no_update)
  have flag: "is_enabled ?st' = ?b"
    using assms(1) k by (simp add: is_enabled_def)
  show ?thesis
    using u ext ans upd drained only bad good flag by blast
qed


lemma demo_snapshot:
  "update_snapshot (frames_world ms) (demo_stim True) = Inr (demo_stim True)"
  by (simp add: update_snapshot_def frames_world_def demo_world_def demo_stim_def
      m_schedulers_def snapshot_event_def store_def bicep_def tricep_def)


theorem update_invalid_frame_disables_witness:
  "is_enabled (demo_stim True) \<and> m_num_ports (demo_stim True) \<le> 2 \<and>
   update_snapshot (frames_world [good_frame, error_frame, good_frame]) (demo_stim True) =
     Inr (demo_stim True) \<and>
   (\<exists>b st' ms.
      update (frames_world [good_frame, error_frame, good_frame]) (demo_stim True) =
        Inr (b, st') \<and>
      history st' = history (demo_stim True) @ new_events (demo_stim True) st' \<and>
      answered_by (frames_world [good_frame, error_frame, good_frame])
        (history (demo_stim True)) (new_events (demo_stim True) st') \<and>
      filter is_scheduler_update (map fst (new_events (demo_stim True) st')) =
        map Scheduler_update [0..<m_num_ports (demo_stim True)] \<and>
      (Get_all_messages [m_hComm_1 (demo_stim True), m_hComm_2 (demo_stim True)]
         (m_num_ports (demo_stim True)), Frames ms)
        \<in> set (new_events (demo_stim True) st') \<and>
      (\<forall>op ms'. (op, Frames ms') \<in> set (new_events (demo_stim True) st') \<longrightarrow> ms' = ms) \<and>
      ((\<exists>m \<in> set ms. \<not> is_valid m) \<longrightarrow> \<not> b \<and> \<not> is_enabled st') \<and>
      ((\<forall>i. (Scheduler_update i, Flag False) \<notin> set (new_events (demo_stim True) st')) \<and>
       (\<forall>m \<in> set ms. is_valid m) \<longrightarrow> b \<and> is_enabled st') \<and>
      is_enabled st' = b)"
proof -
  have on: "is_enabled (demo_stim True)"
    by (simp add: is_enabled_def demo_stim_def)
  have ports: "m_num_ports (demo_stim True) \<le> 2"
    by (simp add: demo_stim_def)
  have snap: "update_snapshot (frames_world [good_frame, error_frame, good_frame])
                (demo_stim True) = Inr (demo_stim True)"
    by (rule demo_snapshot)
  show ?thesis
    using update_invalid_frame_disables [OF on ports snap] on ports snap by blast
qed


text \<open>The tick with an error frame between two valid ones, evaluated.\<close>

lemma update_error_frame:
  "\<exists>st'. update (frames_world [good_frame, error_frame, good_frame]) (demo_stim True) =
           Inr (False, st') \<and> \<not> is_enabled st'"
proof -
  have on: "is_enabled (demo_stim True)"
    by (simp add: is_enabled_def demo_stim_def)
  have ports: "m_num_ports (demo_stim True) \<le> 2"
    by (simp add: demo_stim_def)
  show ?thesis
    unfolding update_enabled [OF on ports demo_snapshot]
    by (simp add: frames_world_def demo_world_def demo_stim_def good_frame_def
        error_frame_def is_enabled_def)
qed

section \<open>Claim C3: \<open>enable\<close> is all or nothing\<close>

text \<open>
  C3. On a stimulator with at most two ports whose channels are on board 0 or 1 and
  whose configured port names are accepted by the UTF-8 decoder, \<open>enable\<close> returns. It
  changes nothing but the two handles, the history and the enabled flag, and the flag is
  then what it returned. What it did is a bring-up history in which every outcome is the
  one the environment gave: every port in order, opened under its decoded name and then
  configured, then every channel in order, stopping at the first step that fails with
  the shutdown of \<open>disable\<close> and the result false. It returns true exactly when no step
  failed, which by the shape of the history is after every port and every channel was
  done. When it returns false, no step before the failed one had failed and no step
  follows it: what follows is logging and the shutdown of \<open>disable\<close>. (With a port name
  that the decoder rejects \<open>enable\<close> does not return:
  \<open>enable_throws_on_bad_port_name\<close>.)
\<close>

theorem enable_all_or_nothing:
  assumes "m_num_ports st \<le> 2" and "\<forall>c \<in> set (m_channels st). board_num c < 2"
    and "port_names_convert w st"
  shows "\<exists>b p evs st'.
           st' = st\<lparr>m_hComm_1 := fst p, m_hComm_2 := snd p,
                     history := history st @ evs, m_enabled := b\<rparr> \<and>
           enable w st = Inr (b, st') \<and> is_enabled st' = b \<and>
           answered_by w (history st) evs \<and>
           bring_up (from_bytes w) (m_com_port_1 st) (m_com_port_2 st) (m_delay_time st)
             (m_enabled st) (m_num_ports st) (m_hComm_1 st, m_hComm_2 st)
             [0..<m_num_ports st] (m_channels st) evs p b \<and>
           (b \<longleftrightarrow> (\<forall>e \<in> set evs. \<not> failed e)) \<and>
           (\<not> b \<longrightarrow> stops_at_first_failure (m_enabled st) (m_num_ports st) evs)"
proof -
  from enable_trace[OF assms] obtain b p evs where
    e: "enable w st =
          Inr (b, st\<lparr>m_hComm_1 := fst p, m_hComm_2 := snd p,
                    history := history st @ evs, m_enabled := b\<rparr>)"
    and rest: "answered_by w (history st) evs"
      "bring_up (from_bytes w) (m_com_port_1 st) (m_com_port_2 st) (m_delay_time st)
         (m_enabled st) (m_num_ports st) (m_hComm_1 st, m_hComm_2 st)
         [0..<m_num_ports st] (m_channels st) evs p b"
      "b \<longleftrightarrow> (\<forall>e \<in> set evs. \<not> failed e)"
      "\<not> b \<longrightarrow> stops_at_first_failure (m_enabled st) (m_num_ports st) evs"
    by blast
  have "is_enabled (st\<lparr>m_hComm_1 := fst p, m_hComm_2 := snd p,
                        history := history st @ evs, m_enabled := b\<rparr>) = b"
    by (simp add: is_enabled_def)
  then show ?thesis
    using e rest by blast
qed

theorem enable_all_or_nothing_witness:
  "m_num_ports (four_channels (demo_stim False)) \<le> 2 \<and>
   list_all (\<lambda>c. board_num c < 2) (m_channels (four_channels (demo_stim False))) \<and>
   port_names_convert (failing_world (Channel_setup_channel forearm 7 1))
     (four_channels (demo_stim False)) \<and>
   (\<exists>b p evs st'.
      st' = (four_channels (demo_stim False))\<lparr>m_hComm_1 := fst p, m_hComm_2 := snd p,
               history := history (four_channels (demo_stim False)) @ evs, m_enabled := b\<rparr> \<and>
      enable (failing_world (Channel_setup_channel forearm 7 1))
        (four_channels (demo_stim False)) = Inr (b, st') \<and>
      is_enabled st' = b \<and>
      answered_by (failing_world (Channel_setup_channel forearm 7 1))
        (history (four_channels (demo_stim False))) evs \<and>
      bring_up (from_bytes (failing_world (Channel_setup_channel forearm 7 1)))
        (m_com_port_1 (four_channels (demo_stim False)))
        (m_com_port_2 (four_channels (demo_stim False)))
        (m_delay_time (four_channels (demo_stim False)))
        (m_enabled (four_channels (demo_stim False)))
        (m_num_ports (four_channels (demo_stim False)))
        (m_hComm_1 (four_channels (demo_stim False)), m_hComm_2 (four_channels (demo_stim False)))
        [0..<m_num_ports (four_channels (demo_stim False))]
        (m_channels (four_channels (demo_stim False))) evs p b \<and>
      (b \<longleftrightarrow> (\<forall>e \<in> set evs. \<not> failed e)) \<and>
      (\<not> b \<longrightarrow>
         stops_at_first_failure (m_enabled (four_channels (demo_stim False)))
           (m_num_ports (four_channels (demo_stim False))) evs))"
proof -
  have ports: "m_num_ports (four_channels (demo_stim False)) \<le> 2"
    by (simp add: four_channels_def demo_stim_def)
  have boards: "\<forall>c \<in> set (m_channels (four_channels (demo_stim False))). board_num c < 2"
    by (simp add: four_channels_def bicep_def tricep_def forearm_def wrist_def)
  have names: "port_names_convert (failing_world (Channel_setup_channel forearm 7 1))
                 (four_channels (demo_stim False))"
    by (simp add: port_names_convert_def failing_world_def demo_world_def
        ascii_from_bytes_def four_channels_def demo_stim_def)
  show ?thesis
    using enable_all_or_nothing [OF ports boards names] ports boards names
    unfolding list_all_iff by blast
qed

text \<open>
  One port and four channels, the third of which fails its setup, evaluated: \<open>enable\<close>
  returns false, the stimulator is not enabled, the port was opened under the wide name
  of \<open>COM5\<close>, the only failed step is that setup, and the fourth channel is not set up.
\<close>

lemma enable_third_channel_fails:
  "\<exists>st'. enable (failing_world (Channel_setup_channel forearm 7 1))
            (four_channels (demo_stim False)) = Inr (False, st') \<and>
         \<not> is_enabled st' \<and>
         hd (history st') =
           (CreateFileW [0x5C, 0x5C, 0x2E, 0x5C, 0x43, 0x4F, 0x4D, 0x35], Opened 7) \<and>
         map fst (filter failed (history st')) = [Channel_setup_channel forearm 7 1] \<and>
         (Channel_setup_channel wrist 7 1, Flag True) \<notin> set (history st')"
  by (simp add: enable_def initialize_board_def open_port_def configure_port_def disable_def
      is_enabled_def close_stimulator_def call_bool_def call_void_def record_call_def
      m_com_ports_def m_hComms_def set_hComm_def failing_world_def demo_world_def
      ascii_from_bytes_def c_str_def com_prefix_def
      four_channels_def demo_stim_def INVALID_HANDLE_VALUE_def Let_def
      bicep_def tricep_def forearm_def wrist_def)

text \<open>A port name that is not UTF-8, evaluated: \<open>enable\<close> is left by the exception.\<close>

lemma enable_bad_port_name:
  "enable demo_world ((demo_stim False)\<lparr>m_com_port_1 := [CHR 0xFF]\<rparr>) =
     Inl (RangeError [CHR 0xFF])"
  by (simp add: enable_def open_port_def m_com_ports_def demo_world_def ascii_from_bytes_def
      demo_stim_def)

section \<open>Claim C4: \<open>disable\<close> is idempotent\<close>

text \<open>
  C4. On a stimulator that is not enabled, \<open>disable\<close> only writes its log line: no
  scheduler is halted and no handle is closed. On any stimulator with at most two ports
  \<open>disable\<close> returns with the enabled flag cleared, and a second call changes nothing
  but the log, to which it adds the same line.
\<close>

theorem disable_idempotent:
  "(\<not> is_enabled st \<longrightarrow>
      disable st =
        Inr (st\<lparr>history := history st @
                 [(LOG Info ''Stimulator has not been enabled yet.'', Done)]\<rparr>)) \<and>
   (m_num_ports s \<le> 2 \<longrightarrow>
      (\<exists>s1. disable s = Inr s1 \<and> \<not> is_enabled s1 \<and>
            disable s1 =
              Inr (s1\<lparr>history := history s1 @
                       [(LOG Info ''Stimulator has not been enabled yet.'', Done)]\<rparr>)))"
proof (intro conjI impI)
  assume "\<not> is_enabled st"
  then show "disable st =
        Inr (st\<lparr>history := history st @
                 [(LOG Info ''Stimulator has not been enabled yet.'', Done)]\<rparr>)"
    by (rule disable_when_disabled)
next
  assume "m_num_ports s \<le> 2"
  then obtain s1 where d: "disable s = Inr s1"
    using disable_total by blast
  then have off: "\<not> is_enabled s1"
    by (simp add: is_enabled_def disable_not_enabled)
  with d show "\<exists>s1. disable s = Inr s1 \<and> \<not> is_enabled s1 \<and>
            disable s1 =
              Inr (s1\<lparr>history := history s1 @
                       [(LOG Info ''Stimulator has not been enabled yet.'', Done)]\<rparr>)"
    by (simp add: disable_when_disabled)
qed

theorem disable_idempotent_witness:
  "\<not> is_enabled (demo_stim False) \<and>
   disable (demo_stim False) =
     Inr ((demo_stim False)\<lparr>history :=
            [(LOG Info ''Stimulator has not been enabled yet.'', Done)]\<rparr>) \<and>
   m_num_ports (demo_stim True) \<le> 2 \<and>
   (\<exists>s1. disable (demo_stim True) = Inr s1 \<and> \<not> is_enabled s1 \<and>
         disable s1 =
           Inr (s1\<lparr>history := history s1 @
                    [(LOG Info ''Stimulator has not been enabled yet.'', Done)]\<rparr>))"
  using disable_idempotent [of "demo_stim False" "demo_stim True"]
  by (simp add: demo_stim_def is_enabled_def)


section \<open>Claim C5: the tick duration and the schedule id\<close>

text \<open>
  C5 (amended). \<open>create_scheduler\<close> uses 50 ms when \<open>frequency > 0\<close> does not hold, and
  otherwise the double-precision product \<open>1.0 / frequency * 1000\<close> truncated to an
  unsigned integer. Frequency 40 gives 25 ms, and for every whole-number frequency from 1
  to 1000 the result is \<open>1000 / frequency\<close> truncated. On an enabled stimulator (at most
  two ports, every valid acknowledgement carrying a payload) \<open>create_scheduler\<close> returns,
  changing nothing but the history and the enabled flag, and what it did is a handshake
  trace for that duration in which every outcome is the one the environment gave: each
  scheduler is created with the duration, the response read is the frame the environment
  has for that port, and after a valid response of a non-virtual stimulator the next call
  is \<open>set_id\<close> with the first byte of its payload; the stimulator stays enabled exactly
  when no response was invalid.
\<close>

theorem tick_duration_and_schedule_id:
  "(\<not> double_gt_zero f \<longrightarrow> tick_duration f = Inr 50) \<and>
   (double_gt_zero f' \<longrightarrow> tick_duration f' = to_unsigned_int (times_1000 (one_over f'))) \<and>
   tick_duration (Finite 40 0) = Inr 25 \<and>
   (1 \<le> n \<and> n \<le> 1000 \<longrightarrow>
      tick_duration (Finite n 0) = Inr (word_of_int (spec_duration (Finite n 0)))) \<and>
   (is_enabled st \<and> m_num_ports st \<le> 2 \<and> acknowledges_with_payload w \<and>
    tick_duration g = Inr d \<longrightarrow>
      (\<exists>b alive evs.
         create_scheduler w sync_msg g st =
           Inr (b, st\<lparr>history := history st @ evs, m_enabled := alive\<rparr>) \<and>
         answered_by w (history st) evs \<and>
         handshake_trace (m_is_virtual st) sync_msg d (m_delay_time st)
           (m_hComm_1 st) (m_hComm_2 st) (disable_events st)
           [0..<m_num_ports st] evs alive))"
proof (intro conjI impI)
  assume "\<not> double_gt_zero f"
  then show "tick_duration f = Inr 50"
    by (simp add: tick_duration_def)
next
  assume "double_gt_zero f'"
  then show "tick_duration f' = to_unsigned_int (times_1000 (one_over f'))"
    by (simp add: tick_duration_def)
next
  show "tick_duration (Finite 40 0) = Inr 25"
    by (rule tick_duration_40)
next
  assume "1 \<le> n \<and> n \<le> 1000"
  then show "tick_duration (Finite n 0) = Inr (word_of_int (spec_duration (Finite n 0)))"
    by (simp add: tick_duration_whole spec_duration_whole)
next
  assume a: "is_enabled st \<and> m_num_ports st \<le> 2 \<and> acknowledges_with_payload w \<and>
    tick_duration g = Inr d"
  have small: "\<forall>i \<in> set [0..<m_num_ports st]. i < 2" using a by auto
  have en: "m_enabled st" using a by (simp add: is_enabled_def)
  from create_schedulers_trace[OF small _ en, of w sync_msg d] a
  obtain r evs where
    run: "create_schedulers w sync_msg d [0..<m_num_ports st] st =
             Inr (r, if r = None then st\<lparr>history := history st @ evs\<rparr>
                     else st\<lparr>history := history st @ evs, m_enabled := False\<rparr>)"
    and ans: "answered_by w (history st) evs"
    and tr: "handshake_trace (m_is_virtual st) sync_msg d (m_delay_time st)
             (m_hComm_1 st) (m_hComm_2 st) (disable_events st) [0..<m_num_ports st] evs
             (r = None)"
    by blast
  let ?st' = "if r = None then st\<lparr>history := history st @ evs\<rparr>
              else st\<lparr>history := history st @ evs, m_enabled := False\<rparr>"
  have same: "st\<lparr>m_enabled := True\<rparr> = st"
    using en by simp
  have "st\<lparr>history := history st @ evs, m_enabled := True\<rparr> =
        (st\<lparr>m_enabled := True\<rparr>)\<lparr>history := history st @ evs\<rparr>"
    by simp
  then have left: "?st' = st\<lparr>history := history st @ evs, m_enabled := (r = None)\<rparr>"
    unfolding same by simp
  have "create_scheduler w sync_msg g st = Inr (False, ?st')"
    using a en run create_schedulers_never_true[OF run]
    by (auto simp: create_scheduler_def is_enabled_def)
  then have "create_scheduler w sync_msg g st =
         Inr (False, st\<lparr>history := history st @ evs, m_enabled := (r = None)\<rparr>)"
    unfolding left .
  then show "\<exists>b alive evs.
         create_scheduler w sync_msg g st =
           Inr (b, st\<lparr>history := history st @ evs, m_enabled := alive\<rparr>) \<and>
         answered_by w (history st) evs \<and>
         handshake_trace (m_is_virtual st) sync_msg d (m_delay_time st)
           (m_hComm_1 st) (m_hComm_2 st) (disable_events st)
           [0..<m_num_ports st] evs alive"
    using ans tr by blast
qed

theorem tick_duration_and_schedule_id_witness:
  "\<not> double_gt_zero (Finite 0 0) \<and> tick_duration (Finite 0 0) = Inr 50 \<and>
   double_gt_zero (Finite 40 0) \<and>
   tick_duration (Finite 40 0) = to_unsigned_int (times_1000 (one_over (Finite 40 0))) \<and>
   (1::int) \<le> 40 \<and> (40::int) \<le> 1000 \<and>
   tick_duration (Finite 40 0) = Inr (word_of_int (spec_duration (Finite 40 0))) \<and>
   is_enabled (demo_stim True) \<and> m_num_ports (demo_stim True) \<le> 2 \<and>
   acknowledges_with_payload demo_world \<and> tick_duration (Finite 40 0) = Inr 25 \<and>
   (\<exists>b alive evs.
      create_scheduler demo_world 0xAA (Finite 40 0) (demo_stim True) =
        Inr (b, (demo_stim True)\<lparr>history := history (demo_stim True) @ evs,
                                   m_enabled := alive\<rparr>) \<and>
      answered_by demo_world (history (demo_stim True)) evs \<and>
      handshake_trace (m_is_virtual (demo_stim True)) 0xAA 25 (m_delay_time (demo_stim True))
        (m_hComm_1 (demo_stim True)) (m_hComm_2 (demo_stim True))
        (disable_events (demo_stim True))
        [0..<m_num_ports (demo_stim True)] evs alive)"
proof -
  have h1: "\<not> double_gt_zero (Finite 0 0)" and h2: "double_gt_zero (Finite 40 0)"
    by (simp_all add: double_gt_zero_def)
  have h3: "(1::int) \<le> 40 \<and> (40::int) \<le> 1000"
    by simp
  have h4: "is_enabled (demo_stim True)" and h5: "m_num_ports (demo_stim True) \<le> 2"
    by (simp_all add: is_enabled_def demo_stim_def)
  have h6: "acknowledges_with_payload demo_world"
    by (simp add: acknowledges_with_payload_def demo_world_def)
  show ?thesis
    using tick_duration_and_schedule_id
      [of "Finite 0 0" "Finite 40 0" 40 "demo_stim True" demo_world "Finite 40 0" 25 "0xAA"]
      h1 h2 h3 h4 h5 h6
    by blast
qed

text \<open>
  The handshake of the one port answered by an error frame, evaluated: no schedule id is
  set, the frame is logged and printed, and the stimulator is shut down.
\<close>

lemma create_scheduler_refused:
  "create_scheduler (demo_world\<lparr>incoming := (\<lambda>h hd. error_frame)\<rparr>) 0xAA (Finite 40 0)
       (demo_stim True) =
     Inr (False,
          (demo_stim True)\<lparr>history :=
             [(Scheduler_create_scheduler 0 7 0xAA 25 1, Flag True),
              (Read_message 7 True, Frame error_frame),
              (LOG Error
                 ''Scheduler created return message (below) was either invalid or an error. Disabling stimulator.'',
               Done),
              (Print_message [4, 128, 5, 0, 5], Done),
              (Scheduler_disable 0, Done),
              (CloseHandle 7, Done),
              (LOG Info ''Stimulator Disabled'', Done)],
            m_enabled := False\<rparr>)"
  by (simp add: create_scheduler_def tick_duration_40 is_enabled_def demo_stim_def
      demo_world_def error_frame_def m_schedulers_def m_hComms_def call_bool_def
      record_call_def call_void_def disable_def close_stimulator_def Let_def)

text \<open>
  C5, as the claim words it, fails: at the double nearest to 200/3 (about 66.67 Hz) the
  code computes a tick of 15 ms, and \<open>1000 / frequency\<close> truncated is 14, in exact
  arithmetic and as a single double-precision division alike.
\<close>

theorem tick_duration_differs_from_quotient:
  "is_double (Finite 4691249611844267 (- 46)) \<and>
   double_gt_zero (Finite 4691249611844267 (- 46)) \<and>
   tick_duration (Finite 4691249611844267 (- 46)) = Inr 15 \<and>
   spec_duration (Finite 4691249611844267 (- 46)) = 14 \<and>
   to_unsigned_int (thousand_over (Finite 4691249611844267 (- 46))) = Inr 14"
proof -
  have "tick_duration (Finite 4691249611844267 (- 46)) = Inr 15"
    by code_simp
  moreover have "spec_duration (Finite 4691249611844267 (- 46)) = 14"
    by (simp add: spec_duration_def power_int_minus floor_eq_iff)
  moreover have "to_unsigned_int (thousand_over (Finite 4691249611844267 (- 46))) = Inr 14"
    by code_simp
  ultimately show ?thesis
    by (simp add: is_double_def double_gt_zero_def)
qed


section \<open>Claim C6: every port is serviced in a tick\<close>

text \<open>
  C6. In a tick of an enabled stimulator (at most two ports, the snapshot refresh inside
  its vectors) the calls of \<open>Scheduler::update\<close> are exactly one per configured port, in
  port order, whatever the earlier ones answered; the outcome of each is the one the
  environment gave; and the tick returns false if one of them failed.
\<close>

theorem update_services_every_port:
  assumes "is_enabled st" and "m_num_ports st \<le> 2" and "update_snapshot w st = Inr st1"
  shows "\<exists>b st'. update w st = Inr (b, st') \<and>
           history st' = history st @ new_events st st' \<and>
           answered_by w (history st) (new_events st st') \<and>
           filter is_scheduler_update (map fst (new_events st st')) =
             map Scheduler_update [0..<m_num_ports st] \<and>
           ((\<exists>i. (Scheduler_update i, Flag False) \<in> set (new_events st st')) \<longrightarrow> \<not> b)"
proof -
  let ?evs = "poll w Scheduler_update [0..<m_num_ports st] (history st)"
  let ?hs = "[m_hComm_1 st, m_hComm_2 st]"
  let ?ms = "all_incoming w (history st @ ?evs) ?hs (m_num_ports st)"
  let ?b = "(\<forall>e \<in> set ?evs. snd e = Flag True) \<and> (\<forall>m \<in> set ?ms. is_valid m)"
  let ?body = "?evs @ (Get_all_messages ?hs (m_num_ports st), Frames ?ms) # complaints ?ms"
  let ?st' = "if ?b then st1\<lparr>history := history st @ ?body\<rparr>
              else st1\<lparr>history := history st @ ?body @ disable_events st1, m_enabled := False\<rparr>"
  have u: "update w st = Inr (?b, ?st')"
    using update_enabled[OF assms] by simp
  have n: "new_events st ?st' = (if ?b then ?body else ?body @ disable_events st1)"
    by (simp add: new_events_def)
  have f: "filter is_scheduler_update (map fst (new_events st ?st')) =
             map Scheduler_update [0..<m_num_ports st]"
    unfolding n
    by (simp add: poll_updates_only complaints_no_update disable_events_no_update)
  have g: "(\<exists>i. (Scheduler_update i, Flag False) \<in> set (new_events st ?st')) \<longrightarrow> \<not> ?b"
  proof
    assume "\<exists>i. (Scheduler_update i, Flag False) \<in> set (new_events st ?st')"
    then obtain i where i: "(Scheduler_update i, Flag False) \<in> set (new_events st ?st')" ..
    have "(Scheduler_update i, Flag False) \<in> set ?evs"
      using i complaints_done[of "(Scheduler_update i, Flag False)" ?ms]
        disable_events_done[of "(Scheduler_update i, Flag False)" st1]
      unfolding n by (auto split: if_splits)
    then show "\<not> ?b" by force
  qed
  have ext: "history ?st' = history st @ new_events st ?st'"
    unfolding n by simp
  have ans: "answered_by w (history st) (new_events st ?st')"
    unfolding n
    by (simp add: answered_by_append answered_by_poll answered_by_complaints
        answered_by_disable_events)
  show ?thesis
    using u ext ans f g by blast
qed


lemma two_ports_snapshot:
  "update_snapshot (failing_world op) (two_ports (demo_stim True)) =
     Inr (two_ports (demo_stim True))"
  by (simp add: update_snapshot_def failing_world_def demo_world_def demo_stim_def
      two_ports_def m_schedulers_def snapshot_event_def store_def bicep_def tricep_def
      upt_rec)


theorem update_services_every_port_witness:
  "is_enabled (two_ports (demo_stim True)) \<and> m_num_ports (two_ports (demo_stim True)) \<le> 2 \<and>
   update_snapshot (failing_world (Scheduler_update 0)) (two_ports (demo_stim True)) =
     Inr (two_ports (demo_stim True)) \<and>
   (\<exists>b st'. update (failing_world (Scheduler_update 0)) (two_ports (demo_stim True)) =
              Inr (b, st') \<and>
            history st' =
              history (two_ports (demo_stim True)) @
              new_events (two_ports (demo_stim True)) st' \<and>
            answered_by (failing_world (Scheduler_update 0))
              (history (two_ports (demo_stim True)))
              (new_events (two_ports (demo_stim True)) st') \<and>
            filter is_scheduler_update
              (map fst (new_events (two_ports (demo_stim True)) st')) =
              map Scheduler_update [0..<m_num_ports (two_ports (demo_stim True))] \<and>
            ((\<exists>i. (Scheduler_update i, Flag False)
                    \<in> set (new_events (two_ports (demo_stim True)) st')) \<longrightarrow> \<not> b))"
proof -
  have on: "is_enabled (two_ports (demo_stim True))"
    by (simp add: is_enabled_def demo_stim_def two_ports_def)
  have ports: "m_num_ports (two_ports (demo_stim True)) \<le> 2"
    by (simp add: demo_stim_def two_ports_def)
  have snap: "update_snapshot (failing_world (Scheduler_update 0)) (two_ports (demo_stim True)) =
                Inr (two_ports (demo_stim True))"
    by (rule two_ports_snapshot)
  show ?thesis
    using update_services_every_port [OF on ports snap] on ports snap by blast
qed

lemma update_first_port_fails:
  "\<exists>st'. update (failing_world (Scheduler_update 0)) (two_ports (demo_stim True)) =
           Inr (False, st') \<and>
         take 2 (new_events (two_ports (demo_stim True)) st') =
           [(Scheduler_update 0, Flag False), (Scheduler_update 1, Flag True)]"
proof -
  have on: "is_enabled (two_ports (demo_stim True))"
    by (simp add: is_enabled_def demo_stim_def two_ports_def)
  have ports: "m_num_ports (two_ports (demo_stim True)) \<le> 2"
    by (simp add: demo_stim_def two_ports_def)
  show ?thesis
    unfolding update_enabled [OF on ports two_ports_snapshot]
    by (simp add: new_events_def failing_world_def demo_world_def two_ports_def demo_stim_def
        upt_rec Let_def)
qed

section \<open>Claim C7: \<open>begin\<close> requires an enabled stimulator\<close>

text \<open>
  C7. \<open>begin\<close> on a stimulator that is not enabled returns false and only logs the
  violated precondition: no synchronisation message is sent and no field changes, the
  enabled flag included. On an enabled stimulator (with at most two ports) it sends the
  synchronisation message of every scheduler, in port order, and does nothing else; the
  outcome of each is the one the environment gave, and \<open>begin\<close> returns true exactly
  when every one of them succeeded.
\<close>

theorem begin_requires_enabled:
  "(\<not> is_enabled st \<longrightarrow>
      begin_stim w st =
        Inr (False,
             st\<lparr>history := history st @
                  [(LOG Error ''Stimulator has not yet been opened. Not starting the stimulator'',
                    Done)]\<rparr>)) \<and>
   (is_enabled s \<and> m_num_ports s \<le> 2 \<longrightarrow>
      (\<exists>b evs. begin_stim w s = Inr (b, s\<lparr>history := history s @ evs\<rparr>) \<and>
               map fst evs = map Scheduler_send_sync_msg [0..<m_num_ports s] \<and>
               answered_by w (history s) evs \<and>
               (\<forall>e \<in> set evs. \<exists>f. snd e = Flag f) \<and>
               (b \<longleftrightarrow> (\<forall>e \<in> set evs. snd e = Flag True))))"
proof (intro conjI impI)
  assume "\<not> is_enabled st"
  then show "begin_stim w st =
        Inr (False,
             st\<lparr>history := history st @
                  [(LOG Error ''Stimulator has not yet been opened. Not starting the stimulator'',
                    Done)]\<rparr>)"
    by (simp add: begin_stim_def call_void_def record_call_def)
next
  assume a: "is_enabled s \<and> m_num_ports s \<le> 2"
  then have same: "s\<lparr>m_enabled := True\<rparr> = s"
    by (simp add: is_enabled_def)
  have small: "\<forall>i \<in> set [0..<m_num_ports s]. i < 2"
    using a by auto
  let ?evs = "poll w Scheduler_send_sync_msg [0..<m_num_ports s] (history s)"
  have "begin_stim w s =
          Inr (\<forall>e \<in> set ?evs. snd e = Flag True, s\<lparr>history := history s @ ?evs\<rparr>)"
    using a by (simp add: begin_stim_def same for_each_success_poll[OF small])
  moreover have "answered_by w (history s) ?evs"
    by (rule answered_by_poll) simp
  ultimately show "\<exists>b evs. begin_stim w s = Inr (b, s\<lparr>history := history s @ evs\<rparr>) \<and>
               map fst evs = map Scheduler_send_sync_msg [0..<m_num_ports s] \<and>
               answered_by w (history s) evs \<and>
               (\<forall>e \<in> set evs. \<exists>f. snd e = Flag f) \<and>
               (b \<longleftrightarrow> (\<forall>e \<in> set evs. snd e = Flag True))"
    using map_fst_poll poll_replies by blast
qed

theorem begin_requires_enabled_witness:
  "\<not> is_enabled (demo_stim False) \<and>
   begin_stim (failing_world (Scheduler_send_sync_msg 0)) (demo_stim False) =
     Inr (False,
          (demo_stim False)\<lparr>history := history (demo_stim False) @
             [(LOG Error ''Stimulator has not yet been opened. Not starting the stimulator'',
               Done)]\<rparr>) \<and>
   is_enabled (two_ports (demo_stim True)) \<and> m_num_ports (two_ports (demo_stim True)) \<le> 2 \<and>
   (\<exists>b evs. begin_stim (failing_world (Scheduler_send_sync_msg 0)) (two_ports (demo_stim True)) =
              Inr (b, (two_ports (demo_stim True))\<lparr>history :=
                         history (two_ports (demo_stim True)) @ evs\<rparr>) \<and>
            map fst evs =
              map Scheduler_send_sync_msg [0..<m_num_ports (two_ports (demo_stim True))] \<and>
            answered_by (failing_world (Scheduler_send_sync_msg 0))
              (history (two_ports (demo_stim True))) evs \<and>
            (\<forall>e \<in> set evs. \<exists>f. snd e = Flag f) \<and>
            (b \<longleftrightarrow> (\<forall>e \<in> set evs. snd e = Flag True)))"
proof -
  have off: "\<not> is_enabled (demo_stim False)"
    by (simp add: is_enabled_def demo_stim_def)
  have on: "is_enabled (two_ports (demo_stim True)) \<and>
            m_num_ports (two_ports (demo_stim True)) \<le> 2"
    by (simp add: is_enabled_def demo_stim_def two_ports_def)
  show ?thesis
    using begin_requires_enabled
      [of "demo_stim False" "failing_world (Scheduler_send_sync_msg 0)"
          "two_ports (demo_stim True)"] off on
    by blast
qed

text \<open>
  Two ports, the first of which fails to send its synchronisation message, evaluated:
  the second is still sent, and \<open>begin\<close> returns false.
\<close>

lemma begin_first_sync_fails:
  "begin_stim (failing_world (Scheduler_send_sync_msg 0)) (two_ports (demo_stim True)) =
     Inr (False,
          (two_ports (demo_stim True))\<lparr>history :=
             [(Scheduler_send_sync_msg 0, Flag False), (Scheduler_send_sync_msg 1, Flag True)]\<rparr>)"
proof -
  have "[0..<2] = [0, Suc 0]" by (simp add: upt_rec)
  then show ?thesis
    by (simp add: begin_stim_def is_enabled_def two_ports_def demo_stim_def failing_world_def
        demo_world_def m_schedulers_def call_bool_def record_call_def)
qed

section \<open>Claim C8: \<open>add_events\<close> fails fast and does not roll back\<close>

text \<open>
  C8. On an enabled stimulator (every channel on board 0 or 1) \<open>add_events\<close> calls
  \<open>Scheduler::add_event\<close> for the channels in list order and does nothing else, and the
  outcome of each call is the one the environment gave. It returns true only when it has
  called it for every channel and every call succeeded. When it returns false the last
  call made is the one that failed, every call before it succeeded, and nothing is called
  after it: the later channels are not attempted and the events already added are not
  removed. So it returns false at the first channel whose \<open>add_event\<close> the environment
  fails.
\<close>

theorem add_events_fails_fast:
  assumes "is_enabled st" and "\<forall>c \<in> set chans. board_num c < 2"
  shows "\<exists>b k evs.
           add_events w chans event_type st = Inr (b, st\<lparr>history := history st @ evs\<rparr>) \<and>
           answered_by w (history st) evs \<and>
           k \<le> length chans \<and>
           map fst evs =
             map (\<lambda>c. Scheduler_add_event (board_num c) c (m_delay_time st) event_type)
               (take k chans) \<and>
           (b \<longrightarrow> k = length chans \<and> (\<forall>e \<in> set evs. snd e = Flag True)) \<and>
           (\<not> b \<longrightarrow> evs \<noteq> [] \<and> snd (last evs) = Flag False \<and>
                   (\<forall>e \<in> set (butlast evs). snd e = Flag True))"
  using add_events_loop_shape[OF assms] assms(1) by (simp add: add_events_def)


theorem add_events_fails_fast_witness:
  "is_enabled (demo_stim True) \<and>
   list_all (\<lambda>c. board_num c < 2) [bicep, tricep, forearm, wrist] \<and>
   (\<exists>b k evs.
      add_events (failing_world (Scheduler_add_event 0 tricep 1 3))
          [bicep, tricep, forearm, wrist] 3 (demo_stim True) =
        Inr (b, (demo_stim True)\<lparr>history := history (demo_stim True) @ evs\<rparr>) \<and>
      answered_by (failing_world (Scheduler_add_event 0 tricep 1 3))
        (history (demo_stim True)) evs \<and>
      k \<le> length [bicep, tricep, forearm, wrist] \<and>
      map fst evs =
        map (\<lambda>c. Scheduler_add_event (board_num c) c (m_delay_time (demo_stim True)) 3)
          (take k [bicep, tricep, forearm, wrist]) \<and>
      (b \<longrightarrow> k = length [bicep, tricep, forearm, wrist] \<and> (\<forall>e \<in> set evs. snd e = Flag True)) \<and>
      (\<not> b \<longrightarrow> evs \<noteq> [] \<and> snd (last evs) = Flag False \<and>
              (\<forall>e \<in> set (butlast evs). snd e = Flag True)))"
proof -
  have on: "is_enabled (demo_stim True)"
    by (simp add: is_enabled_def demo_stim_def)
  have boards: "\<forall>c \<in> set [bicep, tricep, forearm, wrist]. board_num c < 2"
    by (simp add: bicep_def tricep_def forearm_def wrist_def)
  show ?thesis
    using add_events_fails_fast [OF on boards] on boards unfolding list_all_iff by blast
qed

text \<open>Four channels, the second of which the scheduler refuses, evaluated.\<close>

lemma add_events_second_fails:
  "add_events (failing_world (Scheduler_add_event 0 tricep 1 3))
       [bicep, tricep, forearm, wrist] 3 (demo_stim True) =
     Inr (False,
          (demo_stim True)\<lparr>history :=
             [(Scheduler_add_event 0 bicep 1 3, Flag True),
              (Scheduler_add_event 0 tricep 1 3, Flag False)]\<rparr>)"
  by (simp add: add_events_def add_event_def is_enabled_def demo_stim_def failing_world_def
      demo_world_def m_schedulers_def call_bool_def record_call_def bicep_def tricep_def
      forearm_def wrist_def)

section \<open>Claim C9: the constructor enables\<close>

text \<open>
  C9. The constructor ends with \<open>enable()\<close>: for at most two ports, channels on board 0
  or 1 and configured port names that the UTF-8 decoder accepts, the object it returns
  is the one \<open>enable\<close> leaves of the freshly initialised object, which differs from it in
  the two handles, the history and the enabled flag only. Its whole history is a
  bring-up history of the ports and the channels it was given, every outcome in it the
  one the environment gave, and it is enabled exactly when \<open>enable\<close> returned true, which
  is exactly when no step of that history failed. (With a port name that the decoder
  rejects the constructor is left by the exception of \<open>enable\<close>.)
\<close>

theorem constructor_enables:
  assumes "num_ports0 \<le> 2" and "\<forall>c \<in> set channels. board_num c < 2"
    and "port_names_convert w
           (initialised name channels com_port_1 com_port_2 is_virtual
              num_ports0 delay_time0 hComm_1_0 hComm_2_0)"
  shows "\<exists>b p evs st'.
           st' = (initialised name channels com_port_1 com_port_2 is_virtual
                    num_ports0 delay_time0 hComm_1_0 hComm_2_0)
                 \<lparr>m_hComm_1 := fst p, m_hComm_2 := snd p, history := evs, m_enabled := b\<rparr> \<and>
           enable w (initialised name channels com_port_1 com_port_2 is_virtual
                       num_ports0 delay_time0 hComm_1_0 hComm_2_0) = Inr (b, st') \<and>
           Stimulator w name channels com_port_1 com_port_2 is_virtual
             num_ports0 delay_time0 hComm_1_0 hComm_2_0 = Inr st' \<and>
           is_enabled st' = b \<and>
           answered_by w [] evs \<and>
           bring_up (from_bytes w) com_port_1 com_port_2 delay_time0 False
             (if com_port_2 \<noteq> ''NONE'' then 2 else num_ports0) (hComm_1_0, hComm_2_0)
             [0..<(if com_port_2 \<noteq> ''NONE'' then 2 else num_ports0)] channels evs p b \<and>
           (b \<longleftrightarrow> (\<forall>e \<in> set evs. \<not> failed e))"
proof -
  let ?st = "initialised name channels com_port_1 com_port_2 is_virtual
               num_ports0 delay_time0 hComm_1_0 hComm_2_0"
  have ports: "m_num_ports ?st \<le> 2"
    using assms(1) by (simp add: initialised_def Let_def)
  have boards: "\<forall>c \<in> set (m_channels ?st). board_num c < 2"
    using assms(2) by (simp add: initialised_def Let_def)
  have fresh: "history ?st = []"
    by (simp add: initialised_def Let_def)
  from enable_trace[OF ports boards assms(3)] obtain b p evs where
    e: "enable w ?st =
          Inr (b, ?st\<lparr>m_hComm_1 := fst p, m_hComm_2 := snd p,
                     history := history ?st @ evs, m_enabled := b\<rparr>)"
    and a: "answered_by w (history ?st) evs"
    and t: "bring_up (from_bytes w) (m_com_port_1 ?st) (m_com_port_2 ?st) (m_delay_time ?st)
             (m_enabled ?st) (m_num_ports ?st) (m_hComm_1 ?st, m_hComm_2 ?st)
             [0..<m_num_ports ?st] (m_channels ?st) evs p b"
    and r: "b \<longleftrightarrow> (\<forall>e \<in> set evs. \<not> failed e)"
    by blast
  let ?st' = "?st\<lparr>m_hComm_1 := fst p, m_hComm_2 := snd p, history := evs, m_enabled := b\<rparr>"
  have e': "enable w ?st = Inr (b, ?st')"
    using e unfolding fresh by simp
  have "Stimulator w name channels com_port_1 com_port_2 is_virtual
             num_ports0 delay_time0 hComm_1_0 hComm_2_0 = Inr ?st'"
    unfolding Stimulator_def e' by simp
  moreover have "is_enabled ?st' = b"
    by (simp add: is_enabled_def)
  moreover have "answered_by w [] evs"
    using a unfolding fresh .
  moreover have "bring_up (from_bytes w) com_port_1 com_port_2 delay_time0 False
             (if com_port_2 \<noteq> ''NONE'' then 2 else num_ports0) (hComm_1_0, hComm_2_0)
             [0..<(if com_port_2 \<noteq> ''NONE'' then 2 else num_ports0)] channels evs p b"
    using t by (simp add: initialised_def Let_def split: if_splits)
  ultimately show ?thesis
    using e' r by blast
qed


theorem constructor_enables_witness:
  "(1::nat) \<le> 2 \<and> list_all (\<lambda>c. board_num c < 2) [bicep, tricep, forearm, wrist] \<and>
   port_names_convert (failing_world (SetCommTimeouts 7))
     (initialised ''UECU Board'' [bicep, tricep, forearm, wrist] ''COM5'' ''NONE'' False
        1 1 0 0) \<and>
   (\<exists>b p evs st'.
      st' = (initialised ''UECU Board'' [bicep, tricep, forearm, wrist] ''COM5'' ''NONE'' False
               1 1 0 0)
            \<lparr>m_hComm_1 := fst p, m_hComm_2 := snd p, history := evs, m_enabled := b\<rparr> \<and>
      enable (failing_world (SetCommTimeouts 7))
        (initialised ''UECU Board'' [bicep, tricep, forearm, wrist] ''COM5'' ''NONE'' False
           1 1 0 0) = Inr (b, st') \<and>
      Stimulator (failing_world (SetCommTimeouts 7)) ''UECU Board''
        [bicep, tricep, forearm, wrist] ''COM5'' ''NONE'' False 1 1 0 0 = Inr st' \<and>
      is_enabled st' = b \<and>
      answered_by (failing_world (SetCommTimeouts 7)) [] evs \<and>
      bring_up (from_bytes (failing_world (SetCommTimeouts 7))) ''COM5'' ''NONE'' 1 False
        (if ''NONE'' \<noteq> ''NONE'' then 2 else 1) (0, 0)
        [0..<(if ''NONE'' \<noteq> ''NONE'' then 2 else 1)] [bicep, tricep, forearm, wrist]
        evs p b \<and>
      (b \<longleftrightarrow> (\<forall>e \<in> set evs. \<not> failed e)))"
proof -
  have ports: "(1::nat) \<le> 2"
    by simp
  have boards: "\<forall>c \<in> set [bicep, tricep, forearm, wrist]. board_num c < 2"
    by (simp add: bicep_def tricep_def forearm_def wrist_def)
  have names: "port_names_convert (failing_world (SetCommTimeouts 7))
     (initialised ''UECU Board'' [bicep, tricep, forearm, wrist] ''COM5'' ''NONE'' False
        1 1 0 0)"
    by (simp add: port_names_convert_def failing_world_def demo_world_def
        ascii_from_bytes_def initialised_def)
  show ?thesis
    using constructor_enables [OF ports boards names] ports boards names
    unfolding list_all_iff by blast
qed

text \<open>
  The example program's stimulator in a world where every call succeeds, evaluated: the
  constructor returns it enabled, with the handle that was opened. In a world where the
  time-outs of the port cannot be set, the constructor returns it disabled, and no
  channel was set up.
\<close>

lemma constructor_example:
  "\<exists>st'. Stimulator demo_world ''UECU Board'' [bicep, tricep, forearm, wrist] ''COM5''
            ''NONE'' False 1 1 0 0 = Inr st' \<and>
         is_enabled st' \<and> m_hComm_1 st' = 7 \<and> m_num_ports st' = 1 \<and>
         length (history st') = 14"
  by (simp add: Stimulator_def initialised_def enable_def initialize_board_def open_port_def
      configure_port_def is_enabled_def call_bool_def call_void_def record_call_def
      m_com_ports_def m_hComms_def set_hComm_def demo_world_def
      ascii_from_bytes_def c_str_def com_prefix_def
      INVALID_HANDLE_VALUE_def Let_def bicep_def tricep_def forearm_def wrist_def)

lemma constructor_port_not_configured:
  "\<exists>st'. Stimulator (failing_world (SetCommTimeouts 7)) ''UECU Board''
            [bicep, tricep, forearm, wrist] ''COM5'' ''NONE'' False 1 1 0 0 = Inr st' \<and>
         \<not> is_enabled st' \<and>
         map fst (filter failed (history st')) = [SetCommTimeouts 7] \<and>
         last (history st') = (LOG Info ''Stimulator has not been enabled yet.'', Done) \<and>
         length (history st') = 7"
  by (simp add: Stimulator_def initialised_def enable_def initialize_board_def open_port_def
      configure_port_def disable_def is_enabled_def call_bool_def call_void_def
      record_call_def m_com_ports_def m_hComms_def set_hComm_def failing_world_def
      demo_world_def ascii_from_bytes_def c_str_def com_prefix_def
      INVALID_HANDLE_VALUE_def Let_def)

section \<open>Claim C10: the batch writes read one value per channel, unchecked\<close>

text \<open>
  C10. \<open>set_amps\<close> and \<open>write_pws\<close> read the value vector at every index below the
  number of channels. With at least as many values as channels every read is inside the
  vector, and the call writes one value per channel, the one at the channel's index;
  with fewer values the read at the first index past the values is outside the vector.
  (The channels are on board 0 or 1 when the stimulator is enabled, so that no other
  index is out of range.)
\<close>

theorem batch_writes_need_enough_values:
  assumes "is_enabled st \<longrightarrow> (\<forall>c \<in> set chans. board_num c < 2)"
    and "is_enabled st' \<longrightarrow> (\<forall>c \<in> set chans'. board_num c < 2)"
  shows "(length chans \<le> length vals \<longrightarrow>
            set_amps chans vals st =
              Inr (st\<lparr>history := history st @
                       map (\<lambda>i. set_amp_event st (chans ! i) (vals ! i)) [0..<length chans]\<rparr>) \<and>
            write_pws chans vals st =
              Inr (st\<lparr>history := history st @
                       map (\<lambda>i. write_pw_event st (chans ! i) (vals ! i)) [0..<length chans]\<rparr>)) \<and>
         (length vals' < length chans' \<longrightarrow>
            set_amps chans' vals' st' = Inl (IndexOutOfRange ''amplitudes_'' (length vals')) \<and>
            write_pws chans' vals' st' = Inl (IndexOutOfRange ''pulsewidths_'' (length vals')))"
proof (intro conjI impI)
  assume "length chans \<le> length vals"
  then show "set_amps chans vals st =
              Inr (st\<lparr>history := history st @
                       map (\<lambda>i. set_amp_event st (chans ! i) (vals ! i)) [0..<length chans]\<rparr>)"
    unfolding set_amps_def using set_amps_upto[OF assms(1), of "length chans" vals] by simp
next
  assume "length chans \<le> length vals"
  then show "write_pws chans vals st =
              Inr (st\<lparr>history := history st @
                       map (\<lambda>i. write_pw_event st (chans ! i) (vals ! i)) [0..<length chans]\<rparr>)"
    unfolding write_pws_def using write_pws_upto[OF assms(1), of "length chans" vals] by simp
next
  assume short: "length vals' < length chans'"
  show "set_amps chans' vals' st' = Inl (IndexOutOfRange ''amplitudes_'' (length vals'))"
    unfolding set_amps_def upt_split[OF short] for_each_append
    using set_amps_upto[OF assms(2), of "length vals'" vals'] short by simp
next
  assume short: "length vals' < length chans'"
  show "write_pws chans' vals' st' = Inl (IndexOutOfRange ''pulsewidths_'' (length vals'))"
    unfolding write_pws_def upt_split[OF short] for_each_append
    using write_pws_upto[OF assms(2), of "length vals'" vals'] short by simp
qed


theorem batch_writes_need_enough_values_witness:
  "is_enabled (demo_stim True) \<and> list_all (\<lambda>c. board_num c < 2) [bicep, tricep] \<and>
   length [bicep, tricep] \<le> length [40, 30 :: nat] \<and>
   set_amps [bicep, tricep] [40, 30] (demo_stim True) =
     Inr ((demo_stim True)\<lparr>history :=
            [(Scheduler_set_amp 0 bicep 40, Done), (Scheduler_set_amp 0 tricep 30, Done)]\<rparr>) \<and>
   write_pws [bicep, tricep] [40, 30] (demo_stim True) =
     Inr ((demo_stim True)\<lparr>history :=
            [(Scheduler_write_pw 0 bicep 40, Done), (Scheduler_write_pw 0 tricep 30, Done)]\<rparr>) \<and>
   length [40 :: nat] < length [bicep, tricep] \<and>
   set_amps [bicep, tricep] [40] (demo_stim True) = Inl (IndexOutOfRange ''amplitudes_'' 1) \<and>
   write_pws [bicep, tricep] [40] (demo_stim True) = Inl (IndexOutOfRange ''pulsewidths_'' 1)"
proof -
  have boards: "is_enabled (demo_stim True) \<longrightarrow> (\<forall>c \<in> set [bicep, tricep]. board_num c < 2)"
    by (simp add: bicep_def tricep_def)
  have on: "is_enabled (demo_stim True)"
    by (simp add: is_enabled_def demo_stim_def)
  show ?thesis
    using batch_writes_need_enough_values
      [OF boards boards, of "[40, 30]" "[40]"] on
    by (simp add: set_amp_event_def write_pw_event_def upt_rec bicep_def tricep_def
        demo_stim_def)
qed

end
